theory Spec2Isabelle
  imports Main "HOL-Library.Multiset" "HOL-Library.Sublist"
    "HOL-Library.List_Lexorder" "HOL-Library.Char_ord"
begin

section \<open>Verizip: hash-verified zip creation\<close>

text \<open>
  A shallow embedding of \<^verbatim>\<open>verizip.py\<close>. Python \<^verbatim>\<open>str\<close> values (paths,
  digests, file contents: the script targets Python 2.7, where \<^verbatim>\<open>str\<close> is a byte
  string) are \<^typ>\<open>string\<close>; a raised exception is the \<open>Inl\<close> branch of a sum.
\<close>

type_synonym path = string
type_synonym digest = string
type_synonym bytes = string

datatype error =
    IOError string
  | OSError string
  | ValueError string
  | KeyError string
  | IndexError string

subsection \<open>String primitives of Python used by the script\<close>

text \<open>
  \<^verbatim>\<open>s.split(sep)\<close> scans left to right for non-overlapping occurrences of a non-empty
  \<open>sep\<close>; \<open>cur\<close> is the component read so far. Python raises \<^verbatim>\<open>ValueError\<close> for an
  empty separator, which \<open>str_split\<close> returns.
\<close>

function split_scan :: "string \<Rightarrow> string \<Rightarrow> string \<Rightarrow> string list" where
  "split_scan sep cur [] = [cur]"
| "split_scan sep cur (c # cs) =
     (if sep \<noteq> [] \<and> prefix sep (c # cs)
      then cur # split_scan sep [] (drop (length sep) (c # cs))
      else split_scan sep (cur @ [c]) cs)"
  by pat_completeness auto
termination
  by (relation "measure (\<lambda>(sep, cur, s). length s)") auto

definition str_split :: "string \<Rightarrow> string \<Rightarrow> error + string list" where
  "str_split s sep =
     (if sep = [] then Inl (ValueError ''empty separator'') else Inr (split_scan sep [] s))"

text \<open>\<^verbatim>\<open>sep.join(xs)\<close>.\<close>

fun str_join :: "string \<Rightarrow> string list \<Rightarrow> string" where
  "str_join sep [] = []"
| "str_join sep [x] = x"
| "str_join sep (x # y # ys) = x @ sep @ str_join sep (y # ys)"

text \<open>
  \<^verbatim>\<open>zip(*xss)\<close>: the columns of \<open>xss\<close>, as many as the shortest row has; no column
  for an empty argument list.
\<close>

function zip_star :: "'a list list \<Rightarrow> 'a list list" where
  "zip_star xss =
     (if xss = [] \<or> (\<exists>xs \<in> set xss. xs = []) then []
      else map hd xss # zip_star (map tl xss))"
  by pat_completeness auto
termination
proof (relation "measure (\<lambda>xss. length (hd xss))")
  show "wf (measure (\<lambda>xss::'a list list. length (hd xss)))"
    by simp
next
  fix xss :: "'a list list"
  assume a: "\<not> (xss = [] \<or> (\<exists>xs \<in> set xss. xs = []))"
  then obtain x rest where xss: "xss = x # rest"
    by (cases xss) auto
  with a have "x \<noteq> []"
    by auto
  with xss show "(map tl xss, xss) \<in> measure (\<lambda>xss. length (hd xss))"
    by (cases x) auto
qed

declare zip_star.simps [simp del]

subsection \<open>Common root directory\<close>

text \<open>\<^verbatim>\<open>all(v == iterable[0] for v in iterable[1:])\<close>.\<close>

definition check_all_iterable_values_equal :: "'a list \<Rightarrow> bool" where
  "check_all_iterable_values_equal iterable = list_all (\<lambda>v. v = hd iterable) (tl iterable)"

definition get_common_root_directory :: "path list \<Rightarrow> string \<Rightarrow> error + path option" where
  "get_common_root_directory paths sep =
     (if paths \<noteq> [] \<and> sep = [] then Inl (ValueError ''empty separator'')
      else
        let directory_levels_tuple = zip_star (map (split_scan sep []) paths);
            common_directory =
              str_join sep
                (map hd (takeWhile check_all_iterable_values_equal directory_levels_tuple))
        in Inr (if common_directory \<noteq> [] then Some common_directory else None))"

subsection \<open>The host: \<^verbatim>\<open>platform.system()\<close> and \<^verbatim>\<open>os.path\<close>\<close>

text \<open>
  The script reads the host through \<^verbatim>\<open>platform.system()\<close> and the functions of
  \<^verbatim>\<open>os.path\<close>, which Python binds to \<^verbatim>\<open>posixpath\<close> or \<^verbatim>\<open>ntpath\<close>; it reads
  \<^verbatim>\<open>os.environ\<close>; and \<^verbatim>\<open>zipfile\<close> keeps, for the \<^verbatim>\<open>arcname\<close> it is given, a name
  of its own making (\<open>zip_name\<close>). They are a parameter of the model.
\<close>

record os_env =
  system :: string
  environ :: "string \<Rightarrow> string option"
  path_join :: "path \<Rightarrow> path \<Rightarrow> path"
  path_basename :: "path \<Rightarrow> path"
  path_dirname :: "path \<Rightarrow> path"
  path_splitext :: "path \<Rightarrow> path \<times> string"
  path_relpath :: "path \<Rightarrow> path \<Rightarrow> path"
  path_abspath :: "path \<Rightarrow> path"
  zip_name :: "string \<Rightarrow> string"

text \<open>
  The functions of \<^verbatim>\<open>posixpath\<close>, from the standard library's text.
  \<^verbatim>\<open>join(a, b)\<close>: \<open>b\<close> alone when it is absolute, else \<open>a\<close> and \<open>b\<close> with one
  separator between them unless \<open>a\<close> is empty or ends with one.
\<close>

definition is_slash :: "char \<Rightarrow> bool" where
  "is_slash c = (c = CHR ''/'')"

definition posix_join :: "path \<Rightarrow> path \<Rightarrow> path" where
  "posix_join a b =
     (if b \<noteq> [] \<and> is_slash (hd b) then b
      else if a = [] \<or> is_slash (last a) then a @ b
      else a @ ''/'' @ b)"

text \<open>\<^verbatim>\<open>basename(p)\<close> is \<^verbatim>\<open>p[p.rfind('/') + 1:]\<close>.\<close>

definition posix_basename :: "path \<Rightarrow> path" where
  "posix_basename p = rev (takeWhile (\<lambda>c. \<not> is_slash c) (rev p))"

text \<open>
  \<^verbatim>\<open>dirname(p)\<close>: \<^verbatim>\<open>head = p[:p.rfind('/') + 1]\<close>, with its trailing separators
  stripped unless \<open>head\<close> consists of separators only.
\<close>

definition posix_dirname :: "path \<Rightarrow> path" where
  "posix_dirname p =
     (let head = rev (dropWhile (\<lambda>c. \<not> is_slash c) (rev p))
      in if head \<noteq> [] \<and> \<not> list_all is_slash head
         then rev (dropWhile is_slash (rev head)) else head)"

text \<open>
  \<^verbatim>\<open>splitext(p)\<close> splits at the last dot of the last component, unless only dots
  precede it there (leading dots do not start an extension).
\<close>

definition is_dot :: "char \<Rightarrow> bool" where
  "is_dot c = (c = CHR ''.'')"

definition name_ext :: "string \<Rightarrow> string" where
  "name_ext name =
     (let ext = rev (takeWhile (\<lambda>c. \<not> is_dot c) (rev name));
          stem = take (length name - length ext - 1) name
      in if list_ex is_dot name \<and> \<not> list_all is_dot stem then CHR ''.'' # ext else [])"

definition posix_splitext :: "path \<Rightarrow> path \<times> string" where
  "posix_splitext p =
     (let ext = name_ext (posix_basename p)
      in (take (length p - length ext) p, ext))"

text \<open>
  \<^verbatim>\<open>relpath(path, start)\<close> on absolute, normalised paths (\<open>main\<close> makes every input
  absolute with \<^verbatim>\<open>os.path.abspath\<close>, which is the identity on such paths): one
  \<^verbatim>\<open>..\<close> for every component of \<open>start\<close> past the common prefix, then the rest of
  \<open>path\<close>; \<^verbatim>\<open>.\<close> when nothing is left.
\<close>

fun common_prefix_length :: "'a list \<Rightarrow> 'a list \<Rightarrow> nat" where
  "common_prefix_length (x # xs) (y # ys) =
     (if x = y then Suc (common_prefix_length xs ys) else 0)"
| "common_prefix_length _ _ = 0"

definition posix_relpath :: "path \<Rightarrow> path \<Rightarrow> path" where
  "posix_relpath p start =
     (let start_list = filter (\<lambda>x. x \<noteq> []) (split_scan ''/'' [] start);
          path_list = filter (\<lambda>x. x \<noteq> []) (split_scan ''/'' [] p);
          i = common_prefix_length start_list path_list;
          rel_list = replicate (length start_list - i) ''..'' @ drop i path_list
      in if rel_list = [] then ''.'' else str_join ''/'' rel_list)"

text \<open>
  \<^verbatim>\<open>normpath(path)\<close> drops empty and \<^verbatim>\<open>.\<close> components and resolves \<^verbatim>\<open>..\<close> against
  the component before it; exactly two leading separators are kept, any other number
  becomes one.
\<close>

fun normpath_comps :: "bool \<Rightarrow> string list \<Rightarrow> string list \<Rightarrow> string list" where
  "normpath_comps initial_slashes new_comps [] = new_comps"
| "normpath_comps initial_slashes new_comps (part # parts) =
     (if part = [] \<or> part = ''.'' then normpath_comps initial_slashes new_comps parts
      else if part \<noteq> ''..'' \<or> (\<not> initial_slashes \<and> new_comps = [])
                \<or> (new_comps \<noteq> [] \<and> last new_comps = ''..'')
           then normpath_comps initial_slashes (new_comps @ [part]) parts
      else if new_comps \<noteq> [] then normpath_comps initial_slashes (butlast new_comps) parts
      else normpath_comps initial_slashes new_comps parts)"

definition posix_normpath :: "path \<Rightarrow> path" where
  "posix_normpath p =
     (if p = [] then ''.''
      else
        let initial_slashes =
              (if prefix ''/'' p then (if prefix ''//'' p \<and> \<not> prefix ''///'' p then 2 else 1)
               else (0::nat));
            new_comps = normpath_comps (initial_slashes \<noteq> 0) [] (split_scan ''/'' [] p);
            q = replicate initial_slashes CHR ''/'' @ str_join ''/'' new_comps
        in if q = [] then ''.'' else q)"

text \<open>\<^verbatim>\<open>abspath(path)\<close> in the current directory \<open>cwd\<close>.\<close>

definition posix_abspath :: "path \<Rightarrow> path \<Rightarrow> path" where
  "posix_abspath cwd p = posix_normpath (if prefix ''/'' p then p else posix_join cwd p)"

text \<open>
  The name \<^verbatim>\<open>ZipFile.write\<close> stores for an \<^verbatim>\<open>arcname\<close>: normalised, without its
  leading separators.
\<close>

definition posix_zip_name :: "string \<Rightarrow> string" where
  "posix_zip_name arcname = dropWhile is_slash (posix_normpath arcname)"

text \<open>A POSIX host with an empty environment whose current directory is the root.\<close>

definition posix :: os_env where
  "posix = \<lparr> system = ''Linux'', environ = (\<lambda>name. None), path_join = posix_join,
             path_basename = posix_basename, path_dirname = posix_dirname,
             path_splitext = posix_splitext, path_relpath = posix_relpath,
             path_abspath = posix_abspath ''/'', zip_name = posix_zip_name \<rparr>"

subsection \<open>The file system\<close>

text \<open>
  What the script can observe of a path: nothing there, a regular file (with whether
  \<^verbatim>\<open>open\<close> may read it), a special file such as a pipe or a socket, a directory with
  its entries, or a directory that cannot be listed. A file system gives the node at each
  path; \<^verbatim>\<open>os.walk\<close> descends through the entries of the directory it starts from.
\<close>

datatype fnode =
    RegularFile bool bytes
  | SpecialFile
  | Directory "(string \<times> fnode) list"
  | UnreadableDirectory

type_synonym filesystem = "path \<Rightarrow> fnode option"

fun is_regular :: "fnode \<Rightarrow> bool" where
  "is_regular (RegularFile readable content) = True"
| "is_regular _ = False"

fun is_directory :: "fnode \<Rightarrow> bool" where
  "is_directory (Directory entries) = True"
| "is_directory UnreadableDirectory = True"
| "is_directory _ = False"

definition isfile :: "filesystem \<Rightarrow> path \<Rightarrow> bool" where
  "isfile fs p = (case fs p of Some n \<Rightarrow> is_regular n | None \<Rightarrow> False)"

definition isdir :: "filesystem \<Rightarrow> path \<Rightarrow> bool" where
  "isdir fs p = (case fs p of Some n \<Rightarrow> is_directory n | None \<Rightarrow> False)"

text \<open>\<^verbatim>\<open>os.path.getsize\<close> of a directory entry that \<^verbatim>\<open>os.walk\<close> lists as a file.\<close>

fun getsize :: "fnode \<Rightarrow> nat" where
  "getsize (RegularFile readable content) = length content"
| "getsize _ = 0"

text \<open>
  \<^verbatim>\<open>open(file_path, "rb")\<close> gives the content of a readable regular file and raises
  \<^verbatim>\<open>IOError\<close> otherwise. (Opening a pipe would block instead; the script opens a path
  only after \<^verbatim>\<open>os.path.isfile\<close> has accepted it.)
\<close>

definition open_error :: "path \<Rightarrow> error" where
  "open_error file_path = IOError (''cannot open '' @ file_path)"

definition open_rb :: "filesystem \<Rightarrow> path \<Rightarrow> error + bytes" where
  "open_rb fs file_path =
     (case fs file_path of
        Some (RegularFile True content) \<Rightarrow> Inr content
      | _ \<Rightarrow> Inl (open_error file_path))"

subsection \<open>Hashing\<close>

text \<open>
  A \<^verbatim>\<open>hashlib\<close> hash object: its initial state, \<^verbatim>\<open>update\<close> and \<^verbatim>\<open>hexdigest\<close>.
  \<^verbatim>\<open>hashlib\<close> itself, which \<^verbatim>\<open>getattr(hashlib, algorithm)()\<close> reads by the name
  of the algorithm, is a parameter: the digest function is not part of the script.
\<close>

record 'h hasher =
  h_new :: 'h
  h_update :: "'h \<Rightarrow> bytes \<Rightarrow> 'h"
  h_hexdigest :: "'h \<Rightarrow> digest"

type_synonym 'h hashlib = "string \<Rightarrow> 'h hasher"

definition default_algorithm :: string where
  "default_algorithm = ''sha1''"

definition block_size :: nat where
  "block_size = 64 * 1024"

text \<open>
  The loop \<^verbatim>\<open>while True: data = file_handler.read(block_size); if not data: break;
  hasher.update(data)\<close> over the part of the content not read yet.
\<close>

function read_and_update :: "'h hasher \<Rightarrow> nat \<Rightarrow> 'h \<Rightarrow> bytes \<Rightarrow> 'h" where
  "read_and_update H n hasher content =
     (let data = take n content
      in if data = [] then hasher
         else read_and_update H n (h_update H hasher data) (drop n content))"
  by pat_completeness auto
termination
  by (relation "measure (\<lambda>(H, n, hasher, content). length content)") auto

declare read_and_update.simps [simp del]

definition hash_file_at_path :: "'h hashlib \<Rightarrow> filesystem \<Rightarrow> path \<Rightarrow> string \<Rightarrow> error + digest" where
  "hash_file_at_path hashlib fs file_path algorithm =
     (let hasher = hashlib algorithm
      in case open_rb fs file_path of
           Inl e \<Rightarrow> Inl e
         | Inr content \<Rightarrow>
             Inr (h_hexdigest hasher (read_and_update hasher block_size (h_new hasher) content)))"

text \<open>
  An archive open for reading: its entries in the order stored. \<^verbatim>\<open>namelist()\<close> gives
  their names; \<^verbatim>\<open>zip_handler.open(name)\<close> reads the entry the archive's directory
  keeps for that name, the last one written under it, and raises \<^verbatim>\<open>KeyError\<close> when
  there is none.
\<close>

type_synonym zip_entries = "(string \<times> bytes) list"

definition namelist :: "zip_entries \<Rightarrow> string list" where
  "namelist zip_handler = map fst zip_handler"

definition zip_open :: "zip_entries \<Rightarrow> string \<Rightarrow> error + bytes" where
  "zip_open zip_handler file_path_in_zip =
     (case map_of (rev zip_handler) file_path_in_zip of
        Some content \<Rightarrow> Inr content
      | None \<Rightarrow> Inl (KeyError file_path_in_zip))"

definition hash_file_in_zip :: "'h hashlib \<Rightarrow> zip_entries \<Rightarrow> string \<Rightarrow> string \<Rightarrow> error + digest" where
  "hash_file_in_zip hashlib zip_handler file_path_in_zip algorithm =
     (let hasher = hashlib algorithm
      in case zip_open zip_handler file_path_in_zip of
           Inl e \<Rightarrow> Inl e
         | Inr content \<Rightarrow>
             Inr (h_hexdigest hasher (read_and_update hasher block_size (h_new hasher) content)))"

subsection \<open>Hash dictionaries\<close>

text \<open>
  A Python \<^verbatim>\<open>dict\<close> from digests to lists of relative paths, as the list of its items
  with one item for each key. (Python 2.7 iterates over a dict in an order of its own;
  the model iterates in the order in which the keys were first set. The order only shows
  in the order of the lines of the mismatch report.)
\<close>

type_synonym hash_dict = "(digest \<times> path list) list"


definition dict_contains :: "('k \<times> 'v) list \<Rightarrow> 'k \<Rightarrow> bool" where
  "dict_contains d k = (map_of d k \<noteq> None)"

fun dict_set :: "('k \<times> 'v) list \<Rightarrow> 'k \<Rightarrow> 'v \<Rightarrow> ('k \<times> 'v) list" where
  "dict_set [] k v = [(k, v)]"
| "dict_set ((k', v') # d) k v =
     (if k' = k then (k, v) # d else (k', v') # dict_set d k v)"

text \<open>
  \<^verbatim>\<open>d[k].append(x)\<close> and \<^verbatim>\<open>d[k].extend(xs)\<close> for a key of \<open>d\<close>. (Python raises
  \<^verbatim>\<open>KeyError\<close> for another key; the script sets the key first wherever it appends.)
\<close>

definition dict_extend :: "('k \<times> 'v list) list \<Rightarrow> 'k \<Rightarrow> 'v list \<Rightarrow> ('k \<times> 'v list) list" where
  "dict_extend d k xs = (case map_of d k of Some ys \<Rightarrow> dict_set d k (ys @ xs) | None \<Rightarrow> d)"

definition dict_append :: "('k \<times> 'v list) list \<Rightarrow> 'k \<Rightarrow> 'v \<Rightarrow> ('k \<times> 'v list) list" where
  "dict_append d k x = dict_extend d k [x]"

text \<open>\<^verbatim>\<open>a == b\<close> on dicts: the same keys, and equal values at each key.\<close>

definition dict_eq :: "('k \<times> 'v) list \<Rightarrow> ('k \<times> 'v) list \<Rightarrow> bool" where
  "dict_eq a b = list_all (\<lambda>k. map_of a k = map_of b k) (map fst a @ map fst b)"

subsection \<open>Relative names\<close>

definition colon :: char where
  "colon = CHR 0x3A"

definition backslash :: char where
  "backslash = CHR 0x5C"

text \<open>
  The \<^verbatim>\<open>arcname\<close> that \<open>add_files_to_zip\<close> passes to \<^verbatim>\<open>zip_handler.write\<close> for a
  file (the computation of \<^verbatim>\<open>rel_path\<close> there, and the join with the root's name when
  all files go under a shared directory).
\<close>

definition zip_arcname :: "os_env \<Rightarrow> path \<Rightarrow> path option \<Rightarrow> bool \<Rightarrow> string" where
  "zip_arcname os file_path common_root_directory put_all_files_in_shared_root_dir =
     (let rel_path =
            (case common_root_directory of
               Some root \<Rightarrow> path_relpath os file_path root
             | None \<Rightarrow>
                 if system os = ''Windows'' then filter (\<lambda>c. c \<noteq> colon) file_path
                 else file_path)
      in case common_root_directory of
           Some root \<Rightarrow>
             if put_all_files_in_shared_root_dir
             then path_join os (path_basename os root) rel_path
             else rel_path
         | None \<Rightarrow> rel_path)"

text \<open>The relative path that \<open>get_hash_dict\<close> records for a file.\<close>

definition hash_dict_rel_path :: "os_env \<Rightarrow> path \<Rightarrow> path option \<Rightarrow> bool \<Rightarrow> string" where
  "hash_dict_rel_path os file_path root_dir dir_flag =
     (let rel_path =
            (case root_dir of
               Some root \<Rightarrow> path_relpath os file_path root
             | None \<Rightarrow>
                 if system os \<noteq> ''Windows'' then drop 1 file_path
                 else filter (\<lambda>c. c \<noteq> colon) file_path);
          rel_path =
            (case root_dir of
               Some root \<Rightarrow>
                 if dir_flag then path_join os (path_basename os root) rel_path else rel_path
             | None \<Rightarrow> rel_path)
      in if system os = ''Windows''
         then map (\<lambda>c. if c = backslash then CHR ''/'' else c) rel_path
         else rel_path)"

subsection \<open>The source hash dictionary\<close>

definition quoted :: "string \<Rightarrow> string" where
  "quoted s = [CHR 0x27] @ s @ [CHR 0x27]"

definition not_regular_message :: "path \<Rightarrow> string" where
  "not_regular_message file_path =
     quoted file_path @
     '' has either been deleted or is not a regular file (may be a pipe/socket) - zip creation aborted''"

text \<open>
  The loop of \<open>get_hash_dict\<close> over the files not visited yet, with the dictionary built
  so far. The messages that \<open>printer\<close> logs are not part of the model.
\<close>

fun get_hash_dict_loop ::
  "os_env \<Rightarrow> 'h hashlib \<Rightarrow> filesystem \<Rightarrow> path option \<Rightarrow> bool \<Rightarrow> path list \<Rightarrow> hash_dict
     \<Rightarrow> error + hash_dict" where
  "get_hash_dict_loop os hashlib fs root_dir dir_flag [] hash_dict = Inr hash_dict"
| "get_hash_dict_loop os hashlib fs root_dir dir_flag (file_path # rest) hash_dict =
     (if \<not> isfile fs file_path then Inl (IOError (not_regular_message file_path))
      else
        case hash_file_at_path hashlib fs file_path default_algorithm of
          Inl e \<Rightarrow> Inl e
        | Inr hash_value \<Rightarrow>
            let hash_dict =
                  (if \<not> dict_contains hash_dict hash_value
                   then dict_set hash_dict hash_value [] else hash_dict);
                rel_path = hash_dict_rel_path os file_path root_dir dir_flag
            in get_hash_dict_loop os hashlib fs root_dir dir_flag rest
                 (dict_append hash_dict hash_value rel_path))"

definition get_hash_dict ::
  "os_env \<Rightarrow> 'h hashlib \<Rightarrow> filesystem \<Rightarrow> path list \<Rightarrow> path option \<Rightarrow> bool
     \<Rightarrow> error + hash_dict" where
  "get_hash_dict os hashlib fs file_list root_dir dir_flag =
     get_hash_dict_loop os hashlib fs root_dir dir_flag file_list []"

subsection \<open>Enumerating the files\<close>

definition EXCLUDE_FOLDERS :: "string list" where
  "EXCLUDE_FOLDERS = [''$RECYCLE.BIN'', ''System Volume Information'']"

text \<open>\<^verbatim>\<open>f[0] == "."\<close> (the names that \<^verbatim>\<open>os.walk\<close> lists are never empty).\<close>

fun starts_with_dot :: "string \<Rightarrow> bool" where
  "starts_with_dot [] = False"
| "starts_with_dot (c # cs) = (c = CHR ''.'')"

text \<open>
  \<^verbatim>\<open>os.walk(root, onerror=walk_error)\<close> from a node, with the pruning that the loop
  body of \<open>get_file_paths_and_size\<close> does on \<^verbatim>\<open>dirs\<close> and \<^verbatim>\<open>filenames\<close>: the result
  is the path and the size of every file appended to \<^verbatim>\<open>files\<close>, in the order of the
  walk. \<^verbatim>\<open>os.walk\<close> lists as \<^verbatim>\<open>filenames\<close> every entry that is not a directory, and
  descends into the directories left in \<^verbatim>\<open>dirs\<close>. Where a directory cannot be listed
  \<open>walk_error\<close> raises the \<^verbatim>\<open>OSError\<close>. The notices logged for excluded folders are
  not part of the model.
\<close>

fun walk :: "os_env \<Rightarrow> bool \<Rightarrow> bool \<Rightarrow> path \<Rightarrow> fnode \<Rightarrow> error + (path \<times> nat) list"
  and walk_dirs ::
    "os_env \<Rightarrow> bool \<Rightarrow> bool \<Rightarrow> path \<Rightarrow> (string \<times> fnode) list \<Rightarrow> error + (path \<times> nat) list"
where
  "walk os ignore_dotfiles ignore_windows_volume_folders root (Directory entries) =
     (let filenames = filter (\<lambda>(name, n). \<not> is_directory n) entries;
          filenames =
            (if ignore_dotfiles
             then filter (\<lambda>(name, n). \<not> starts_with_dot name) filenames else filenames);
          found = map (\<lambda>(name, n). (path_join os root name, getsize n)) filenames
      in case walk_dirs os ignore_dotfiles ignore_windows_volume_folders root entries of
           Inl e \<Rightarrow> Inl e
         | Inr below \<Rightarrow> Inr (found @ below))"
| "walk os ignore_dotfiles ignore_windows_volume_folders root UnreadableDirectory =
     Inl (OSError root)"
| "walk os ignore_dotfiles ignore_windows_volume_folders root (RegularFile readable content) =
     Inl (OSError root)"
| "walk os ignore_dotfiles ignore_windows_volume_folders root SpecialFile =
     Inl (OSError root)"
| "walk_dirs os ignore_dotfiles ignore_windows_volume_folders root [] = Inr []"
| "walk_dirs os ignore_dotfiles ignore_windows_volume_folders root ((name, n) # rest) =
     (if is_directory n
         \<and> \<not> (ignore_dotfiles \<and> starts_with_dot name)
         \<and> \<not> (ignore_windows_volume_folders \<and> name \<in> set EXCLUDE_FOLDERS)
      then
        case walk os ignore_dotfiles ignore_windows_volume_folders (path_join os root name) n of
          Inl e \<Rightarrow> Inl e
        | Inr found \<Rightarrow>
            (case walk_dirs os ignore_dotfiles ignore_windows_volume_folders root rest of
               Inl e \<Rightarrow> Inl e
             | Inr others \<Rightarrow> Inr (found @ others))
      else walk_dirs os ignore_dotfiles ignore_windows_volume_folders root rest)"

text \<open>The loop \<^verbatim>\<open>for path in sorted(paths)\<close>.\<close>

fun walk_paths ::
  "os_env \<Rightarrow> filesystem \<Rightarrow> bool \<Rightarrow> bool \<Rightarrow> path list \<Rightarrow> error + (path \<times> nat) list" where
  "walk_paths os fs ignore_dotfiles ignore_windows_volume_folders [] = Inr []"
| "walk_paths os fs ignore_dotfiles ignore_windows_volume_folders (p # paths) =
     (case (case fs p of
              Some n \<Rightarrow> walk os ignore_dotfiles ignore_windows_volume_folders p n
            | None \<Rightarrow> Inl (OSError p)) of
        Inl e \<Rightarrow> Inl e
      | Inr found \<Rightarrow>
          (case walk_paths os fs ignore_dotfiles ignore_windows_volume_folders paths of
             Inl e \<Rightarrow> Inl e
           | Inr others \<Rightarrow> Inr (found @ others)))"

definition get_file_paths_and_size ::
  "os_env \<Rightarrow> filesystem \<Rightarrow> path list \<Rightarrow> bool \<Rightarrow> bool \<Rightarrow> error + path list \<times> nat" where
  "get_file_paths_and_size os fs paths ignore_dotfiles ignore_windows_volume_folders =
     (case walk_paths os fs ignore_dotfiles ignore_windows_volume_folders (sort paths) of
        Inl e \<Rightarrow> Inl e
      | Inr found \<Rightarrow> Inr (sort (map fst found), sum_list (map snd found)))"

subsection \<open>A free output path\<close>

text \<open>\<^verbatim>\<open>"{}".format(n)\<close> for a number that is not negative: its decimal digits.\<close>

definition digit_char :: "nat \<Rightarrow> char" where
  "digit_char n = ''0123456789'' ! n"

function str_nat :: "nat \<Rightarrow> string" where
  "str_nat n = (if n < 10 then [digit_char n] else str_nat (n div 10) @ [digit_char (n mod 10)])"
  by pat_completeness auto
termination
  by (relation "measure (\<lambda>n. n)") auto

declare str_nat.simps [simp del]

text \<open>
  The loop \<^verbatim>\<open>while os.path.isfile(file_path)\<close> of \<open>get_safe_file_path\<close>, with the path
  and the suffix to try next. It has no bound of its own: the result is \<open>None\<close> when it
  does not end.
\<close>

partial_function (option) safe_file_path_loop ::
  "os_env \<Rightarrow> filesystem \<Rightarrow> string \<Rightarrow> path \<Rightarrow> nat \<Rightarrow> path option" where
  "safe_file_path_loop os fs file_basename_noext file_path filename_suffix =
     (if isfile fs file_path
      then safe_file_path_loop os fs file_basename_noext
             (path_join os (path_dirname os file_path)
                (file_basename_noext @ ''_'' @ str_nat filename_suffix
                   @ snd (path_splitext os file_path)))
             (filename_suffix + 1)
      else Some file_path)"

declare safe_file_path_loop.simps [code]

definition get_safe_file_path :: "os_env \<Rightarrow> filesystem \<Rightarrow> path \<Rightarrow> path option" where
  "get_safe_file_path os fs file_path =
     safe_file_path_loop os fs (fst (path_splitext os (path_basename os file_path))) file_path 2"

subsection \<open>Creating the archive\<close>

text \<open>
  The root that \<open>create_zip\<close> computes for an input path: the parent directory of the
  path when it is the only input, the common root of all inputs otherwise.
\<close>

definition create_zip_common_root ::
  "os_env \<Rightarrow> path list \<Rightarrow> path \<Rightarrow> string \<Rightarrow> error + path option" where
  "create_zip_common_root os input_paths p path_separator =
     (if length input_paths = 1 then Inr (Some (path_dirname os p))
      else get_common_root_directory input_paths path_separator)"

text \<open>
  \<^verbatim>\<open>zip_handler.write(file_path, arcname=...)\<close> on the entries written so far:
  \<^verbatim>\<open>os.stat\<close> raises \<^verbatim>\<open>OSError\<close> for a missing file, a directory becomes an empty
  entry whose name ends with a separator, and the content of a file is read with
  \<^verbatim>\<open>open\<close> (as in \<open>open_rb\<close>) and stored under the name that \<^verbatim>\<open>zipfile\<close> makes of
  the \<^verbatim>\<open>arcname\<close>.
\<close>

definition zip_write ::
  "os_env \<Rightarrow> filesystem \<Rightarrow> zip_entries \<Rightarrow> path \<Rightarrow> string \<Rightarrow> error + zip_entries" where
  "zip_write os fs zip_handler file_path arcname =
     (case fs file_path of
        None \<Rightarrow> Inl (OSError file_path)
      | Some n \<Rightarrow>
          if is_directory n then Inr (zip_handler @ [(zip_name os arcname @ ''/'', [])])
          else
            (case open_rb fs file_path of
               Inl e \<Rightarrow> Inl e
             | Inr content \<Rightarrow> Inr (zip_handler @ [(zip_name os arcname, content)])))"

text \<open>
  \<open>add_files_to_zip\<close>: an exception leaves the entries written before it in the archive.
\<close>

fun add_files_to_zip ::
  "os_env \<Rightarrow> filesystem \<Rightarrow> path list \<Rightarrow> path option \<Rightarrow> zip_entries \<Rightarrow> bool
     \<Rightarrow> error \<times> zip_entries + zip_entries" where
  "add_files_to_zip os fs [] common_root_directory zip_handler
     put_all_files_in_shared_root_dir = Inr zip_handler"
| "add_files_to_zip os fs (file_path # rest) common_root_directory zip_handler
     put_all_files_in_shared_root_dir =
     (case zip_write os fs zip_handler file_path
             (zip_arcname os file_path common_root_directory put_all_files_in_shared_root_dir) of
        Inl e \<Rightarrow> Inl (e, zip_handler)
      | Inr written \<Rightarrow>
          add_files_to_zip os fs rest common_root_directory written
            put_all_files_in_shared_root_dir)"

text \<open>
  The loop that merges the dictionary of one input into \<open>file_hash_dict\<close>:
  \<^verbatim>\<open>if hash_value not in file_hash_dict: file_hash_dict[hash_value] = relative_paths
  else: file_hash_dict[hash_value].extend(relative_paths)\<close>.
\<close>

definition merge_hash_dict :: "hash_dict \<Rightarrow> hash_dict \<Rightarrow> hash_dict" where
  "merge_hash_dict file_hash_dict directory_hash_dict =
     fold (\<lambda>(hash_value, relative_paths) d.
             if \<not> dict_contains d hash_value then dict_set d hash_value relative_paths
             else dict_extend d hash_value relative_paths)
       directory_hash_dict file_hash_dict"

text \<open>
  What \<open>create_zip\<close> does with the file list of one input, a directory's files or the
  one file: hash the files, merge their dictionary, add them to the archive.
\<close>

definition hash_and_add ::
  "os_env \<Rightarrow> 'h hashlib \<Rightarrow> filesystem \<Rightarrow> path list \<Rightarrow> path option \<Rightarrow> bool \<Rightarrow> hash_dict
     \<Rightarrow> zip_entries \<Rightarrow> error \<times> zip_entries + hash_dict \<times> zip_entries" where
  "hash_and_add os hashlib fs file_list common_root_directory
     put_all_files_in_shared_root_dir file_hash_dict zip_handler =
     (case get_hash_dict os hashlib fs file_list common_root_directory
             put_all_files_in_shared_root_dir of
        Inl e \<Rightarrow> Inl (e, zip_handler)
      | Inr input_hash_dict \<Rightarrow>
          (case add_files_to_zip os fs file_list common_root_directory zip_handler
                  put_all_files_in_shared_root_dir of
             Inl failed \<Rightarrow> Inl failed
           | Inr written \<Rightarrow> Inr (merge_hash_dict file_hash_dict input_hash_dict, written)))"

text \<open>
  The files of one input path: those that the enumeration finds when the path is a
  directory, the path itself otherwise.
\<close>

definition input_file_list :: "os_env \<Rightarrow> filesystem \<Rightarrow> bool \<Rightarrow> bool \<Rightarrow> path \<Rightarrow> error + path list" where
  "input_file_list os fs ignore_dotfiles ignore_windows_volume_folders p =
     (if isdir fs p
      then map_sum id fst
             (get_file_paths_and_size os fs [p] ignore_dotfiles ignore_windows_volume_folders)
      else Inr [p])"

text \<open>
  The loop of \<open>create_zip\<close> over the input paths not visited yet, with the dictionary, the
  file count and the archive so far; \<open>input_paths\<close> are all the inputs.
\<close>

fun create_zip_loop ::
  "os_env \<Rightarrow> 'h hashlib \<Rightarrow> filesystem \<Rightarrow> path list \<Rightarrow> bool \<Rightarrow> bool \<Rightarrow> bool \<Rightarrow> string
     \<Rightarrow> path list \<Rightarrow> hash_dict \<Rightarrow> nat \<Rightarrow> zip_entries
     \<Rightarrow> error \<times> zip_entries + hash_dict \<times> nat \<times> zip_entries" where
  "create_zip_loop os hashlib fs input_paths ignore_dotfiles ignore_windows_volume_folders
     put_all_files_in_shared_root_dir path_separator [] file_hash_dict total_file_count
     zip_handler = Inr (file_hash_dict, total_file_count, zip_handler)"
| "create_zip_loop os hashlib fs input_paths ignore_dotfiles ignore_windows_volume_folders
     put_all_files_in_shared_root_dir path_separator (p # rest) file_hash_dict total_file_count
     zip_handler =
     (case create_zip_common_root os input_paths p path_separator of
        Inl e \<Rightarrow> Inl (e, zip_handler)
      | Inr common_root_directory \<Rightarrow>
          (case input_file_list os fs ignore_dotfiles ignore_windows_volume_folders p of
             Inl e \<Rightarrow> Inl (e, zip_handler)
           | Inr file_list \<Rightarrow>
               (case hash_and_add os hashlib fs file_list common_root_directory
                       put_all_files_in_shared_root_dir file_hash_dict zip_handler of
                  Inl failed \<Rightarrow> Inl failed
                | Inr (merged, written) \<Rightarrow>
                    create_zip_loop os hashlib fs input_paths ignore_dotfiles
                      ignore_windows_volume_folders put_all_files_in_shared_root_dir
                      path_separator rest merged
                      (total_file_count + (if isdir fs p then length file_list else 1))
                      written)))"

text \<open>
  \<open>create_zip\<close> returns the dictionary and the file count, or raises; either way the
  \<^verbatim>\<open>with\<close> block has closed the archive, which is at \<open>output_path\<close> with the entries
  written. (Opening the archive for writing is taken to succeed, and the output files are
  kept apart from the files that are read: the model does not cover an output path inside
  an input directory.)
\<close>

definition create_zip ::
  "os_env \<Rightarrow> 'h hashlib \<Rightarrow> filesystem \<Rightarrow> path list \<Rightarrow> bool \<Rightarrow> bool \<Rightarrow> bool \<Rightarrow> string
     \<Rightarrow> (error + hash_dict \<times> nat) \<times> zip_entries" where
  "create_zip os hashlib fs input_paths ignore_dotfiles ignore_windows_volume_folders
     put_all_files_in_shared_root_dir path_separator =
     (case create_zip_loop os hashlib fs input_paths ignore_dotfiles
             ignore_windows_volume_folders put_all_files_in_shared_root_dir path_separator
             input_paths [] 0 [] of
        Inl (e, zip_handler) \<Rightarrow> (Inl e, zip_handler)
      | Inr (file_hash_dict, total_file_count, zip_handler) \<Rightarrow>
          (Inr (file_hash_dict, total_file_count), zip_handler))"

subsection \<open>The run\<close>

text \<open>
  The files that a run leaves: the archive at the output path and the error log, with its
  path. A line of the error log is the logged exception, or one of the two lines of the
  mismatch report, each about one digest.
\<close>

datatype report_line =
    ExceptionOccurred path error
  | HashNotPresent digest "path list"
  | FilesDoNotMatch digest "path list" "path list"

record outputs =
  archive :: "zip_entries option"
  error_log :: "(path \<times> report_line list) option"

datatype outcome =
    InputsMissing "path list"
  | CreationFailed error
  | Verified
  | VerificationFailed

record run_result =
  outcome :: outcome
  left :: outputs

text \<open>The loop of \<open>main\<close> over \<^verbatim>\<open>zip_handler.namelist()\<close>.\<close>

fun zip_hash_loop ::
  "'h hashlib \<Rightarrow> zip_entries \<Rightarrow> string list \<Rightarrow> hash_dict \<Rightarrow> nat \<Rightarrow> error + hash_dict \<times> nat" where
  "zip_hash_loop hashlib zip_handler [] zip_hash_dict zip_file_count =
     Inr (zip_hash_dict, zip_file_count)"
| "zip_hash_loop hashlib zip_handler (file_within_zip # rest) zip_hash_dict zip_file_count =
     (case hash_file_in_zip hashlib zip_handler file_within_zip default_algorithm of
        Inl e \<Rightarrow> Inl e
      | Inr hash_value \<Rightarrow>
          let zip_hash_dict =
                (if \<not> dict_contains zip_hash_dict hash_value
                 then dict_set zip_hash_dict hash_value [] else zip_hash_dict)
          in zip_hash_loop hashlib zip_handler rest
               (dict_append zip_hash_dict hash_value file_within_zip) (zip_file_count + 1))"

definition get_zip_hash_dict :: "'h hashlib \<Rightarrow> zip_entries \<Rightarrow> error + hash_dict \<times> nat" where
  "get_zip_hash_dict hashlib zip_handler =
     zip_hash_loop hashlib zip_handler (namelist zip_handler) [] 0"

definition error_log_file_path :: "os_env \<Rightarrow> path \<Rightarrow> string \<Rightarrow> path" where
  "error_log_file_path os output_directory run_time_str =
     path_join os output_directory (run_time_str @ ''_verizip_error.txt'')"

text \<open>The lines that the loop over \<^verbatim>\<open>file_hash_dict.items()\<close> writes.\<close>

definition mismatch_lines :: "hash_dict \<Rightarrow> hash_dict \<Rightarrow> report_line list" where
  "mismatch_lines file_hash_dict zip_hash_dict =
     concat
       (map (\<lambda>(hash_value, file_paths).
               case map_of zip_hash_dict hash_value of
                 None \<Rightarrow> [HashNotPresent hash_value file_paths]
               | Some zip_paths \<Rightarrow>
                   if sort file_paths \<noteq> sort zip_paths
                   then [FilesDoNotMatch hash_value file_paths zip_paths] else [])
          file_hash_dict)"

text \<open>
  The end of \<open>main\<close>: the comparison of the two dictionaries and counts, with \<open>files\<close> the
  files left so far. On a mismatch the report is written and the archive removed.
\<close>

definition main_verify ::
  "os_env \<Rightarrow> path \<Rightarrow> string \<Rightarrow> hash_dict \<Rightarrow> nat \<Rightarrow> hash_dict \<Rightarrow> nat \<Rightarrow> outputs \<Rightarrow> run_result" where
  "main_verify os output_directory run_time_str file_hash_dict total_file_count zip_hash_dict
     zip_file_count files =
     (if dict_eq file_hash_dict zip_hash_dict \<and> total_file_count = zip_file_count
      then \<lparr> outcome = Verified, left = files \<rparr>
      else
        \<lparr> outcome = VerificationFailed,
          left = files
            \<lparr> error_log :=
                Some (error_log_file_path os output_directory run_time_str,
                      mismatch_lines file_hash_dict zip_hash_dict),
              archive := None \<rparr> \<rparr>)"

text \<open>
  \<open>main\<close> from the call of \<open>create_zip\<close> on. An exception of \<open>create_zip\<close> is logged to
  the error log and the archive is removed if it is a file. The archive is then read back;
  an exception there is not caught (\<open>Inl\<close>).
\<close>

definition main_create_and_verify ::
  "os_env \<Rightarrow> 'h hashlib \<Rightarrow> filesystem \<Rightarrow> path \<Rightarrow> path \<Rightarrow> string \<Rightarrow> path list \<Rightarrow> bool \<Rightarrow> bool
     \<Rightarrow> bool \<Rightarrow> string \<Rightarrow> error + run_result" where
  "main_create_and_verify os hashlib fs output_path output_directory run_time_str input_paths
     ignore_dotfiles ignore_windows_volume_folders root_directory path_separator =
     (case create_zip os hashlib fs input_paths ignore_dotfiles ignore_windows_volume_folders
             root_directory path_separator of
        (Inl e, zip_handler) \<Rightarrow>
          let files =
                \<lparr> archive = Some zip_handler,
                  error_log =
                    Some (error_log_file_path os output_directory run_time_str,
                          [ExceptionOccurred output_path e]) \<rparr>;
              files = (if archive files \<noteq> None then files \<lparr> archive := None \<rparr> else files)
          in Inr \<lparr> outcome = CreationFailed e, left = files \<rparr>
      | (Inr (file_hash_dict, total_file_count), zip_handler) \<Rightarrow>
          (case get_zip_hash_dict hashlib zip_handler of
             Inl e \<Rightarrow> Inl e
           | Inr (zip_hash_dict, zip_file_count) \<Rightarrow>
               Inr (main_verify os output_directory run_time_str file_hash_dict
                      total_file_count zip_hash_dict zip_file_count
                      \<lparr> archive = Some zip_handler, error_log = None \<rparr>)))"

text \<open>
  The arguments of a run (the fields of the \<^verbatim>\<open>Args\<close> tuple), and \<open>main\<close> from the check
  of the input paths on. The result is \<open>None\<close> when the search for a free output path does
  not end.
\<close>

record args =
  arg_input_paths :: "path list"
  arg_output_path :: "path option"
  arg_root_directory :: bool
  arg_ignore_dotfiles :: bool
  arg_ignore_windows_volume_folders :: bool

definition get_missing_sources :: "filesystem \<Rightarrow> path list \<Rightarrow> bool \<Rightarrow> path list" where
  "get_missing_sources fs source_paths files_only =
     filter (\<lambda>source_path. (\<not> isdir fs source_path \<or> files_only) \<and> \<not> isfile fs source_path)
       source_paths"

definition check_running_from_automator :: "os_env \<Rightarrow> bool" where
  "check_running_from_automator os =
     (system os = ''Darwin''
      \<and> environ os ''XPC_SERVICE_NAME'' = Some ''com.apple.automator.xpc.runner'')"

text \<open>The output path and the output directory that \<open>main\<close> settles on.\<close>

definition choose_output ::
  "os_env \<Rightarrow> filesystem \<Rightarrow> args \<Rightarrow> string \<Rightarrow> path list \<Rightarrow> (error + path \<times> path) option" where
  "choose_output os fs a run_time_str absolute_paths =
     (case arg_output_path a of
        Some given \<Rightarrow> Some (Inr (given, path_dirname os given))
      | None \<Rightarrow>
          (if check_running_from_automator os \<and> absolute_paths = []
           then Some (Inl (IndexError ''list index out of range''))
           else
             (let output_directory =
                    (if check_running_from_automator os
                     then path_dirname os (last absolute_paths) else ''.'');
                  output_filename =
                    (if length absolute_paths = 1
                     then path_basename os (hd absolute_paths @ ''.zip'')
                     else run_time_str @ ''_archive.zip'')
              in map_option (\<lambda>free. Inr (free, output_directory))
                   (get_safe_file_path os fs (path_join os output_directory output_filename)))))"

definition main :: "os_env \<Rightarrow> 'h hashlib \<Rightarrow> filesystem \<Rightarrow> args \<Rightarrow> string \<Rightarrow> (error + run_result) option" where
  "main os hashlib fs a run_time_str =
     (if get_missing_sources fs (arg_input_paths a) False \<noteq> []
      then Some (Inr \<lparr> outcome = InputsMissing (get_missing_sources fs (arg_input_paths a) False),
                       left = \<lparr> archive = None, error_log = None \<rparr> \<rparr>)
      else
        (let path_separator = (if system os = ''Windows'' then [backslash] else ''/'');
             absolute_paths = map (path_abspath os) (arg_input_paths a)
         in map_option
              (\<lambda>chosen.
                 case chosen of
                   Inl e \<Rightarrow> Inl e
                 | Inr (chosen_path, output_directory) \<Rightarrow>
                     main_create_and_verify os hashlib fs chosen_path output_directory
                       run_time_str absolute_paths (arg_ignore_dotfiles a)
                       (arg_ignore_windows_volume_folders a) (arg_root_directory a)
                       path_separator)
              (choose_output os fs a run_time_str absolute_paths)))"


subsection \<open>Notions used to state the properties\<close>

text \<open>The successive blocks that \<^verbatim>\<open>read(n)\<close> returns for a content.\<close>

function blocks :: "nat \<Rightarrow> 'a list \<Rightarrow> 'a list list" where
  "blocks n xs = (if take n xs = [] then [] else take n xs # blocks n (drop n xs))"
  by pat_completeness auto
termination
  by (relation "measure (\<lambda>(n, xs). length xs)") auto

declare blocks.simps [simp del]

text \<open>The levels that the scan of \<open>get_common_root_directory\<close> keeps.\<close>

definition common_levels :: "'a list list \<Rightarrow> 'a list" where
  "common_levels xss = map hd (takeWhile check_all_iterable_values_equal (zip_star xss))"

text \<open>A hash object for running examples: it records the algorithm and every block it is fed.\<close>

definition example_hashlib :: "string hashlib" where
  "example_hashlib algorithm =
     \<lparr> h_new = algorithm, h_update = (\<lambda>h data. h @ ''|'' @ data), h_hexdigest = (\<lambda>h. h) \<rparr>"

text \<open>
  The files below a directory: \<open>file_below os root entries names p\<close> when following the
  entry names \<open>names\<close> from the directory \<open>root\<close> with the entries \<open>entries\<close> leads,
  through directories, to an entry that is not a directory, whose path is \<open>p\<close>.
\<close>

inductive file_below :: "os_env \<Rightarrow> path \<Rightarrow> (string \<times> fnode) list \<Rightarrow> string list \<Rightarrow> path \<Rightarrow> bool"
  for os :: os_env where
  here: "(name, n) \<in> set entries \<Longrightarrow> \<not> is_directory n \<Longrightarrow>
         file_below os root entries [name] (path_join os root name)"
| deeper: "(name, Directory sub) \<in> set entries \<Longrightarrow>
           file_below os (path_join os root name) sub names p \<Longrightarrow>
           file_below os root entries (name # names) p"

text \<open>
  The entry names that the two flags let pass: none starts with a dot when dotfiles are
  ignored; none but the last (the directories on the way) is an excluded folder when
  Windows volume folders are ignored.
\<close>

definition allowed :: "bool \<Rightarrow> bool \<Rightarrow> string list \<Rightarrow> bool" where
  "allowed ignore_dotfiles ignore_windows_volume_folders names =
     ((ignore_dotfiles \<longrightarrow> \<not> list_ex starts_with_dot names)
      \<and> (ignore_windows_volume_folders \<longrightarrow>
           \<not> list_ex (\<lambda>d. d \<in> set EXCLUDE_FOLDERS) (butlast names)))"

text \<open>
  The path that \<open>get_safe_file_path\<close> tries with the suffix \<open>k\<close> on a POSIX host: the
  directory of the path, the name without its extension, \<^verbatim>\<open>_k\<close>, the extension.
\<close>

definition candidate :: "path \<Rightarrow> nat \<Rightarrow> path" where
  "candidate file_path k =
     posix_join (posix_dirname file_path)
       (fst (posix_splitext (posix_basename file_path)) @ ''_'' @ str_nat k
          @ snd (posix_splitext file_path))"

text \<open>A directory for running examples.\<close>

definition example_directory :: fnode where
  "example_directory =
     Directory
       [(''x.txt'', RegularFile True ''hi''),
        (''.hidden'', RegularFile True ''abc''),
        (''.git'', Directory [(''config'', RegularFile True ''c'')]),
        (''$RECYCLE.BIN'', Directory [(''junk'', RegularFile True ''jj'')]),
        (''sub'', Directory [(''y.txt'', RegularFile True ''hi'')])]"

text \<open>The shape of what \<open>posix_dirname\<close> returns: separators only, or no separator at its end.\<close>

definition dirname_shaped :: "path \<Rightarrow> bool" where
  "dirname_shaped dir = (list_all is_slash dir \<or> \<not> is_slash (last dir))"


text \<open>The digest that a line of the mismatch report is about.\<close>

fun line_digest :: "report_line \<Rightarrow> digest option" where
  "line_digest (ExceptionOccurred p e) = None"
| "line_digest (HashNotPresent hash_value file_paths) = Some hash_value"
| "line_digest (FilesDoNotMatch hash_value file_paths zip_paths) = Some hash_value"

text \<open>The digest of a content, as both hashing functions compute it.\<close>

definition content_digest :: "'h hashlib \<Rightarrow> bytes \<Rightarrow> digest" where
  "content_digest hashlib content =
     h_hexdigest (hashlib default_algorithm)
       (read_and_update (hashlib default_algorithm) block_size
          (h_new (hashlib default_algorithm)) content)"

text \<open>A dictionary lists \<open>x\<close> under the key \<open>k\<close>.\<close>

definition listed :: "('k \<times> 'v list) list \<Rightarrow> 'k \<Rightarrow> 'v \<Rightarrow> bool" where
  "listed d k x = (\<exists>xs. map_of d k = Some xs \<and> x \<in> set xs)"

text \<open>Two files with the same content, for running examples.\<close>

definition example_files :: filesystem where
  "example_files =
     [''/a/x.txt'' \<mapsto> RegularFile True ''hi'', ''/a/y.txt'' \<mapsto> RegularFile True ''hi'',
      ''/a/pipe'' \<mapsto> SpecialFile]"

section \<open>Properties\<close>

subsection \<open>Hashing a file and hashing an archive entry\<close>

lemma read_and_update_fold:
  "read_and_update H n hasher content =
     fold (\<lambda>data h. h_update H h data) (blocks n content) hasher"
proof (induction H n hasher content rule: read_and_update.induct)
  case (1 H n hasher content)
  show ?case
  proof (cases "take n content = []")
    case True
    then show ?thesis
      by (subst read_and_update.simps, subst blocks.simps) simp
  next
    case False
    with 1 show ?thesis
      by (subst read_and_update.simps, subst blocks.simps) simp
  qed
qed

lemma concat_blocks: "0 < n \<Longrightarrow> concat (blocks n xs) = xs"
proof (induction n xs rule: blocks.induct)
  case (1 n xs)
  show ?case
  proof (cases "take n xs = []")
    case True
    with "1.prems" show ?thesis by (subst blocks.simps) auto
  next
    case False
    with 1 show ?thesis by (subst blocks.simps) auto
  qed
qed

lemma blocks_bounded: "b \<in> set (blocks n xs) \<Longrightarrow> b \<noteq> [] \<and> length b \<le> n"
proof (induction n xs rule: blocks.induct)
  case (1 n xs)
  show ?case
  proof (cases "take n xs = []")
    case True
    with "1.prems" show ?thesis by (subst (asm) blocks.simps) simp
  next
    case False
    from "1.prems" False have "b = take n xs \<or> b \<in> set (blocks n (drop n xs))"
      by (subst (asm) blocks.simps) auto
    with False "1.IH" show ?thesis by auto
  qed
qed

text \<open>
  C4. A readable file and an archive entry that hold the same bytes get the same digest
  string: both functions return the hex digest of the default algorithm, \<^verbatim>\<open>sha1\<close>, fed
  the content in its successive blocks of at most 64 KiB, which are non-empty and
  concatenate to the content.
\<close>

theorem hash_file_same_digest:
  assumes "open_rb fs file_path = Inr content"
    and "zip_open zip_handler file_path_in_zip = Inr content"
  shows "hash_file_at_path hashlib fs file_path default_algorithm =
           hash_file_in_zip hashlib zip_handler file_path_in_zip default_algorithm
       \<and> hash_file_in_zip hashlib zip_handler file_path_in_zip default_algorithm =
           Inr (h_hexdigest (hashlib ''sha1'')
                  (fold (\<lambda>data h. h_update (hashlib ''sha1'') h data)
                     (blocks 65536 content) (h_new (hashlib ''sha1''))))
       \<and> concat (blocks 65536 content) = content
       \<and> list_all (\<lambda>b. b \<noteq> [] \<and> length b \<le> 65536) (blocks 65536 content)"
proof -
  have "concat (blocks 65536 content) = content"
    by (rule concat_blocks) simp
  moreover have "list_all (\<lambda>b. b \<noteq> [] \<and> length b \<le> 65536) (blocks 65536 content)"
    unfolding list_all_iff using blocks_bounded by blast
  moreover have "block_size = 65536"
    by (simp add: block_size_def)
  ultimately show ?thesis
    using assms
    by (simp add: hash_file_at_path_def hash_file_in_zip_def default_algorithm_def
        read_and_update_fold Let_def)
qed

theorem hash_file_same_digest_witness:
  "hash_file_at_path example_hashlib [''/a/x.txt'' \<mapsto> RegularFile True ''hi''] ''/a/x.txt''
       default_algorithm = Inr ''sha1|hi''
   \<and> hash_file_in_zip example_hashlib [(''x.txt'', ''hi'')] ''x.txt'' default_algorithm =
       Inr ''sha1|hi''"
proof -
  have a: "open_rb [''/a/x.txt'' \<mapsto> RegularFile True ''hi''] ''/a/x.txt'' = Inr ''hi''"
    by (simp add: open_rb_def)
  have b: "zip_open [(''x.txt'', ''hi'')] ''x.txt'' = Inr ''hi''"
    by (simp add: zip_open_def)
  have c: "blocks 65536 ''hi'' = [''hi'']"
    by (subst blocks.simps, subst blocks.simps) simp
  show ?thesis
    using hash_file_same_digest [OF a b, of example_hashlib]
    by (simp add: c example_hashlib_def)
qed

subsection \<open>The common root\<close>

lemma common_levels_unfold:
  "common_levels xss =
     (if xss = [] \<or> (\<exists>xs \<in> set xss. xs = []) then []
      else if check_all_iterable_values_equal (map hd xss)
           then hd (map hd xss) # common_levels (map tl xss) else [])"
  unfolding common_levels_def by (subst zip_star.simps) simp

lemma all_equal_heads:
  assumes "xss \<noteq> []" "check_all_iterable_values_equal (map hd xss)" "xs \<in> set xss"
  shows "hd xs = hd (hd xss)"
  using assms unfolding check_all_iterable_values_equal_def
  by (cases xss) (auto simp: list_all_iff hd_map)

lemma common_levels_prefix:
  "xs \<in> set xss \<Longrightarrow> prefix (common_levels xss) xs"
proof (induction xss arbitrary: xs rule: zip_star.induct)
  case (1 xss)
  show ?case
  proof (cases "xss = [] \<or> (\<exists>xs \<in> set xss. xs = [])")
    case True
    then show ?thesis by (subst common_levels_unfold) simp
  next
    case False
    note ne = this
    show ?thesis
    proof (cases "check_all_iterable_values_equal (map hd xss)")
      case False
      with ne show ?thesis by (subst common_levels_unfold) simp
    next
      case True
      from ne "1.prems" have xs: "xs \<noteq> []" by auto
      from ne have xss: "xss \<noteq> []" by simp
      have h: "hd xs = hd (hd xss)"
        using all_equal_heads [OF xss True "1.prems"] .
      have "tl xs \<in> set (map tl xss)" using "1.prems" by simp
      from "1.IH" [OF ne this] have "prefix (common_levels (map tl xss)) (tl xs)" .
      moreover have "xs = hd (hd xss) # tl xs" using xs h by (cases xs) auto
      ultimately have "prefix (hd (hd xss) # common_levels (map tl xss)) xs"
        by (metis Cons_prefix_Cons)
      with ne True xss show ?thesis
        by (subst common_levels_unfold) (simp add: hd_map)
    qed
  qed
qed

lemma common_levels_longest:
  "xss \<noteq> [] \<Longrightarrow> \<forall>xs \<in> set xss. prefix q xs \<Longrightarrow> prefix q (common_levels xss)"
proof (induction xss arbitrary: q rule: zip_star.induct)
  case (1 xss)
  show ?case
  proof (cases q)
    case Nil
    then show ?thesis by simp
  next
    case (Cons a q')
    have heads: "\<forall>xs \<in> set xss. xs \<noteq> [] \<and> hd xs = a \<and> prefix q' (tl xs)"
    proof
      fix xs assume "xs \<in> set xss"
      with "1.prems"(2) Cons have "prefix (a # q') xs" by simp
      then obtain r where "xs = a # r" "prefix q' r" by (cases xs) auto
      then show "xs \<noteq> [] \<and> hd xs = a \<and> prefix q' (tl xs)" by simp
    qed
    then have ne: "\<not> (xss = [] \<or> (\<exists>xs \<in> set xss. xs = []))"
      using "1.prems"(1) by auto
    have eq: "check_all_iterable_values_equal (map hd xss)"
      using heads "1.prems"(1) unfolding check_all_iterable_values_equal_def
      by (cases xss) (auto simp: list_all_iff)
    have a: "hd (map hd xss) = a"
      using heads "1.prems"(1) by (cases xss) auto
    have "map tl xss \<noteq> []" using "1.prems"(1) by simp
    moreover have "\<forall>ys \<in> set (map tl xss). prefix q' ys" using heads by auto
    ultimately have "prefix q' (common_levels (map tl xss))"
      using "1.IH" [OF ne] by blast
    with ne eq a Cons show ?thesis
      by (subst common_levels_unfold) simp
  qed
qed

text \<open>
  C6. For a non-empty list of paths and a separator, \<open>get_common_root_directory\<close>
  returns the components on which all paths agree, joined with the separator: the
  component list \<open>pre\<close> is a prefix of every path's components, and every list that is
  such a common prefix is a prefix of \<open>pre\<close>; the result is absent when the joined string
  is empty. With exactly one input path, \<open>create_zip\<close> takes the parent directory of that
  path as the root instead.
\<close>

theorem common_root_is_longest_common_prefix:
  assumes "paths \<noteq> []" and "sep \<noteq> []"
  shows "(\<exists>pre.
            (\<forall>p \<in> set paths. prefix pre (split_scan sep [] p))
          \<and> (\<forall>q. (\<forall>p \<in> set paths. prefix q (split_scan sep [] p)) \<longrightarrow> prefix q pre)
          \<and> get_common_root_directory paths sep =
              Inr (if str_join sep pre = [] then None else Some (str_join sep pre)))
       \<and> (\<forall>p \<in> set paths. str_split p sep = Inr (split_scan sep [] p))
       \<and> create_zip_common_root os [p] p sep = Inr (Some (path_dirname os p))"
proof -
  let ?xss = "map (split_scan sep []) paths"
  let ?pre = "common_levels ?xss"
  have ne: "?xss \<noteq> []" using assms(1) by simp
  have 1: "\<forall>p \<in> set paths. prefix ?pre (split_scan sep [] p)"
    using common_levels_prefix [of _ ?xss] by simp
  have 2: "\<forall>q. (\<forall>p \<in> set paths. prefix q (split_scan sep [] p)) \<longrightarrow> prefix q ?pre"
    using common_levels_longest [OF ne] by simp
  have 3: "get_common_root_directory paths sep =
             Inr (if str_join sep ?pre = [] then None else Some (str_join sep ?pre))"
    using assms(2) by (simp add: get_common_root_directory_def common_levels_def Let_def)
  from 1 2 3 have "\<exists>pre.
            (\<forall>p \<in> set paths. prefix pre (split_scan sep [] p))
          \<and> (\<forall>q. (\<forall>p \<in> set paths. prefix q (split_scan sep [] p)) \<longrightarrow> prefix q pre)
          \<and> get_common_root_directory paths sep =
              Inr (if str_join sep pre = [] then None else Some (str_join sep pre))"
    by blast
  then show ?thesis
    using assms(2) by (simp add: str_split_def create_zip_common_root_def)
qed

theorem common_root_is_longest_common_prefix_witness:
  "get_common_root_directory [''/a/b/c'', ''/a/b/d'', ''/a/bb''] ''/'' = Inr (Some ''/a'')
   \<and> get_common_root_directory [''/a/x'', ''/b/y''] ''/'' = Inr None
   \<and> create_zip_common_root posix [''/a/b/c''] ''/a/b/c'' ''/'' = Inr (Some ''/a/b'')"
proof -
  have a: "get_common_root_directory [''/a/b/c'', ''/a/b/d'', ''/a/bb''] ''/'' = Inr (Some ''/a'')"
    by code_simp
  have b: "get_common_root_directory [''/a/x'', ''/b/y''] ''/'' = Inr None"
    by code_simp
  have c: "path_dirname posix ''/a/b/c'' = ''/a/b''"
    by code_simp
  have d: "[''/a/b/c'', ''/a/b/d'', ''/a/bb''] \<noteq> []" and e: "''/'' \<noteq> []"
    by simp_all
  from common_root_is_longest_common_prefix [OF d e, of posix "''/a/b/c''"]
  have "create_zip_common_root posix [''/a/b/c''] ''/a/b/c'' ''/'' =
          Inr (Some (path_dirname posix ''/a/b/c''))"
    by blast
  with a b c show ?thesis by simp
qed

subsection \<open>The name in the archive and the name in the hash dictionary\<close>




subsection \<open>Files that are missing or not regular\<close>

lemma get_hash_dict_loop_raises_at_irregular:
  "\<not> isfile fs f \<Longrightarrow>
   get_hash_dict_loop os hashlib fs root flag (f # rest) hash_dict =
     Inl (IOError (not_regular_message f))"
  by simp

lemma hash_file_at_path_readable:
  "fs g = Some (RegularFile True content) \<Longrightarrow>
   \<exists>d. hash_file_at_path hashlib fs g algorithm = Inr d"
  by (simp add: hash_file_at_path_def open_rb_def Let_def)

lemma get_hash_dict_loop_fails:
  "f \<in> set file_list \<Longrightarrow> \<not> isfile fs f \<Longrightarrow>
   \<exists>e. get_hash_dict_loop os hashlib fs root flag file_list hash_dict = Inl e"
proof (induction file_list arbitrary: hash_dict)
  case Nil
  then show ?case by simp
next
  case (Cons g rest)
  show ?case
  proof (cases "isfile fs g")
    case False
    then show ?thesis by simp
  next
    case True
    with Cons.prems have "f \<in> set rest" by auto
    from Cons.IH [OF this Cons.prems(2)] True show ?thesis
      by (cases "hash_file_at_path hashlib fs g default_algorithm") (simp_all add: Let_def)
  qed
qed

lemma get_hash_dict_loop_first_irregular:
  "\<forall>g \<in> set before. \<exists>content. fs g = Some (RegularFile True content) \<Longrightarrow>
   \<not> isfile fs f \<Longrightarrow>
   get_hash_dict_loop os hashlib fs root flag (before @ f # rest) hash_dict =
     Inl (IOError (not_regular_message f))"
proof (induction before arbitrary: hash_dict)
  case Nil
  then show ?case by simp
next
  case (Cons g before)
  from Cons.prems(1) obtain content where g: "fs g = Some (RegularFile True content)"
    by auto
  then have "isfile fs g" by (simp add: isfile_def)
  moreover from hash_file_at_path_readable [of fs g content hashlib default_algorithm] g
  obtain d where "hash_file_at_path hashlib fs g default_algorithm = Inr d" by blast
  moreover have "\<forall>g \<in> set before. \<exists>content. fs g = Some (RegularFile True content)"
    using Cons.prems(1) by simp
  ultimately show ?case
    using Cons.IH [OF _ Cons.prems(2)] by (simp add: Let_def)
qed

text \<open>
  C7. If a listed file is missing or not a regular file, \<open>get_hash_dict\<close> fails as a
  whole: it returns an error and no dictionary, so no entry for that file. When the loop
  reaches such a file it raises the \<^verbatim>\<open>IOError\<close> whose message names the file, whatever
  the dictionary built so far, before the file is hashed; and that is the error of the
  whole call when every file listed before it is a readable regular file.
\<close>

theorem get_hash_dict_irregular_file:
  assumes "f \<in> set file_list" and "\<not> isfile fs f"
  shows "(\<exists>e. get_hash_dict os hashlib fs file_list root flag = Inl e)
       \<and> (\<forall>rest hash_dict. get_hash_dict_loop os hashlib fs root flag (f # rest) hash_dict =
              Inl (IOError (not_regular_message f)))
       \<and> (\<forall>before rest.
             file_list = before @ f # rest
             \<and> (\<forall>g \<in> set before. \<exists>content. fs g = Some (RegularFile True content))
             \<longrightarrow> get_hash_dict os hashlib fs file_list root flag =
                   Inl (IOError (not_regular_message f)))
       \<and> not_regular_message f = quoted f @
           '' has either been deleted or is not a regular file (may be a pipe/socket) - zip creation aborted''"
  using assms get_hash_dict_loop_fails [OF assms, of os hashlib root flag "[]"]
    get_hash_dict_loop_first_irregular [of _ fs f os hashlib root flag _ "[]"]
  by (auto simp add: get_hash_dict_def not_regular_message_def)

theorem get_hash_dict_irregular_file_witness:
  "get_hash_dict posix example_hashlib
     [''/a/x.txt'' \<mapsto> RegularFile True ''hi'', ''/a/pipe'' \<mapsto> SpecialFile]
     [''/a/x.txt'', ''/a/pipe'', ''/a/gone''] (Some ''/a'') False =
   Inl (IOError (not_regular_message ''/a/pipe''))"
proof -
  let ?fs = "[''/a/x.txt'' \<mapsto> RegularFile True ''hi'', ''/a/pipe'' \<mapsto> SpecialFile]"
  have a: "''/a/pipe'' \<in> set [''/a/x.txt'', ''/a/pipe'', ''/a/gone'']"
    by simp
  have b: "\<not> isfile ?fs ''/a/pipe''"
    by (simp add: isfile_def)
  have c: "[''/a/x.txt'', ''/a/pipe'', ''/a/gone''] = [''/a/x.txt''] @ ''/a/pipe'' # [''/a/gone'']"
    by simp
  have d: "\<forall>g \<in> set [''/a/x.txt'']. \<exists>content. ?fs g = Some (RegularFile True content)"
    by simp
  from get_hash_dict_irregular_file [OF a b, of posix example_hashlib "Some ''/a''" False] c d
  show ?thesis by blast
qed

subsection \<open>The files that the enumeration finds\<close>

lemma file_below_names: "file_below os root entries names p \<Longrightarrow> names \<noteq> []"
  by (induction rule: file_below.induct) simp_all

lemma allowed_single:
  "allowed d v [name] = (d \<longrightarrow> \<not> starts_with_dot name)"
  by (simp add: allowed_def)

lemma allowed_Cons:
  "names \<noteq> [] \<Longrightarrow>
   allowed d v (name # names) =
     (\<not> (d \<and> starts_with_dot name) \<and> \<not> (v \<and> name \<in> set EXCLUDE_FOLDERS) \<and> allowed d v names)"
  by (auto simp add: allowed_def)

lemma walk_not_directory:
  "walk os d v root n = Inr found \<Longrightarrow> \<exists>sub. n = Directory sub"
  by (cases n) simp_all

lemma walk_found:
  "walk os d v root node = Inr found \<Longrightarrow> node = Directory entries \<Longrightarrow>
     (p \<in> fst ` set found \<longleftrightarrow> (\<exists>names. file_below os root entries names p \<and> allowed d v names))"
  "walk_dirs os d v root es = Inr found \<Longrightarrow>
     (p \<in> fst ` set found \<longleftrightarrow>
        (\<exists>name sub names. (name, Directory sub) \<in> set es
           \<and> file_below os (path_join os root name) sub names p \<and> allowed d v (name # names)))"
proof (induction os d v root node and os d v root es
    arbitrary: found entries p and found p rule: walk_walk_dirs.induct)
  case (1 os d v root es)
  from "1.prems"(2) have es: "es = entries" by simp
  from "1.prems"(1) obtain below where
    below: "walk_dirs os d v root es = Inr below"
    and found: "found = map (\<lambda>(name, n). (path_join os root name, getsize n))
        (if d then filter (\<lambda>(name, n). \<not> starts_with_dot name)
                    (filter (\<lambda>(name, n). \<not> is_directory n) es)
         else filter (\<lambda>(name, n). \<not> is_directory n) es) @ below"
    by (auto simp add: Let_def split: sum.splits)
  have here: "p \<in> fst ` set (map (\<lambda>(name, n). (path_join os root name, getsize n))
        (if d then filter (\<lambda>(name, n). \<not> starts_with_dot name)
                    (filter (\<lambda>(name, n). \<not> is_directory n) es)
         else filter (\<lambda>(name, n). \<not> is_directory n) es))
      \<longleftrightarrow> (\<exists>name n. (name, n) \<in> set es \<and> \<not> is_directory n
             \<and> p = path_join os root name \<and> allowed d v [name])"
    by (auto simp add: allowed_single image_iff)
  have deep: "p \<in> fst ` set below \<longleftrightarrow>
        (\<exists>name sub names. (name, Directory sub) \<in> set es
           \<and> file_below os (path_join os root name) sub names p \<and> allowed d v (name # names))"
    using "1.IH" [OF refl refl refl below] .
  have "(\<exists>names. file_below os root es names p \<and> allowed d v names) \<longleftrightarrow>
        (\<exists>name n. (name, n) \<in> set es \<and> \<not> is_directory n
             \<and> p = path_join os root name \<and> allowed d v [name])
        \<or> (\<exists>name sub names. (name, Directory sub) \<in> set es
           \<and> file_below os (path_join os root name) sub names p \<and> allowed d v (name # names))"
    (is "?L \<longleftrightarrow> ?A \<or> ?B")
  proof
    assume ?L
    then obtain names where fb: "file_below os root es names p" and al: "allowed d v names"
      by blast
    from fb al show "?A \<or> ?B"
      by (cases rule: file_below.cases) blast+
  next
    assume "?A \<or> ?B"
    then show ?L
      by (blast intro: file_below.intros)
  qed
  with here deep found es show ?case
    by (simp add: image_Un)
next
  case (2 os d v root)
  then show ?case by simp
next
  case (3 os d v root readable content)
  then show ?case by simp
next
  case (4 os d v root)
  then show ?case by simp
next
  case (5 os d v root)
  then show ?case by simp
next
  case (6 os d v root name n rest)
  let ?keep = "is_directory n \<and> \<not> (d \<and> starts_with_dot name)
      \<and> \<not> (v \<and> name \<in> set EXCLUDE_FOLDERS)"
  let ?R = "\<lambda>es. \<exists>name' sub names. (name', Directory sub) \<in> set es
           \<and> file_below os (path_join os root name') sub names p \<and> allowed d v (name' # names)"
  show ?case
  proof (cases ?keep)
    case True
    with "6.prems" obtain f1 f2 where
      f1: "walk os d v (path_join os root name) n = Inr f1"
      and f2: "walk_dirs os d v root rest = Inr f2"
      and found: "found = f1 @ f2"
      by (auto split: sum.splits)
    from walk_not_directory [OF f1] obtain sub where n: "n = Directory sub" by blast
    have a: "p \<in> fst ` set f1 \<longleftrightarrow>
        (\<exists>names. file_below os (path_join os root name) sub names p \<and> allowed d v names)"
      using "6.IH"(1) [OF True f1 n] .
    have b: "p \<in> fst ` set f2 \<longleftrightarrow> ?R rest"
      using "6.IH"(2) [OF True f1 f2] .
    have c: "(\<exists>names. file_below os (path_join os root name) sub names p \<and> allowed d v names)
        \<longleftrightarrow> (\<exists>names. file_below os (path_join os root name) sub names p
               \<and> allowed d v (name # names))"
      using True allowed_Cons [OF file_below_names] by blast
    have "?R ((name, n) # rest) \<longleftrightarrow>
        (\<exists>names. file_below os (path_join os root name) sub names p
               \<and> allowed d v (name # names)) \<or> ?R rest"
      using n by auto
    with a b c found show ?thesis
      by (simp add: image_Un)
  next
    case False
    with "6.prems" have f: "walk_dirs os d v root rest = Inr found"
      by (auto split: if_splits)
    have b: "p \<in> fst ` set found \<longleftrightarrow> ?R rest"
      using "6.IH"(3) [OF False f] .
    have "\<not> (\<exists>sub names. n = Directory sub
        \<and> file_below os (path_join os root name) sub names p \<and> allowed d v (name # names))"
    proof
      assume "\<exists>sub names. n = Directory sub
        \<and> file_below os (path_join os root name) sub names p \<and> allowed d v (name # names)"
      then obtain sub names where n: "n = Directory sub"
        and fb: "file_below os (path_join os root name) sub names p"
        and al: "allowed d v (name # names)" by blast
      from al allowed_Cons [OF file_below_names [OF fb], of d v name]
      have "\<not> (d \<and> starts_with_dot name) \<and> \<not> (v \<and> name \<in> set EXCLUDE_FOLDERS)" by simp
      with n False show False by simp
    qed
    then have "?R ((name, n) # rest) \<longleftrightarrow> ?R rest"
      by auto
    with b show ?thesis by simp
  qed
qed

lemma walk_paths_found:
  "walk_paths os fs d v paths = Inr found \<Longrightarrow>
     (p \<in> fst ` set found \<longleftrightarrow>
        (\<exists>top \<in> set paths. \<exists>entries names. fs top = Some (Directory entries)
           \<and> file_below os top entries names p \<and> allowed d v names))"
proof (induction paths arbitrary: found)
  case Nil
  then show ?case by auto
next
  case (Cons top paths)
  from Cons.prems obtain n f1 f2 where
    n: "fs top = Some n"
    and f1: "walk os d v top n = Inr f1"
    and f2: "walk_paths os fs d v paths = Inr f2"
    and found: "found = f1 @ f2"
    by (auto split: option.splits sum.splits)
  from walk_not_directory [OF f1] obtain entries where entries: "n = Directory entries"
    by blast
  have a: "p \<in> fst ` set f1 \<longleftrightarrow>
      (\<exists>names. file_below os top entries names p \<and> allowed d v names)"
    using walk_found(1) [OF f1 entries] .
  have b: "p \<in> fst ` set f2 \<longleftrightarrow>
      (\<exists>top \<in> set paths. \<exists>entries names. fs top = Some (Directory entries)
           \<and> file_below os top entries names p \<and> allowed d v names)"
    using Cons.IH [OF f2] .
  from a b found n entries show ?case
    by (auto simp add: image_Un)
qed

text \<open>
  C8. When the enumeration succeeds, the files it returns are sorted and are exactly the
  entries that are not directories, reached from one of the given directories through
  entry names that the flags let pass: with \<open>ignore_dotfiles\<close>, no name on the way (the
  file's own or a directory's) starts with a dot, so nothing in a dot-directory appears;
  with \<open>ignore_windows_volume_folders\<close>, no directory on the way is named
  \<^verbatim>\<open>$RECYCLE.BIN\<close> or \<^verbatim>\<open>System Volume Information\<close>; with both flags off, every such
  entry is returned.
\<close>

theorem enumeration_respects_ignore_flags:
  assumes "get_file_paths_and_size os fs paths ignore_dotfiles ignore_windows_volume_folders =
             Inr (files, total_size)"
  shows "(p \<in> set files \<longleftrightarrow>
           (\<exists>top \<in> set paths. \<exists>entries names.
              fs top = Some (Directory entries)
              \<and> file_below os top entries names p
              \<and> (ignore_dotfiles \<longrightarrow> \<not> list_ex starts_with_dot names)
              \<and> (ignore_windows_volume_folders \<longrightarrow>
                   \<not> list_ex (\<lambda>d. d = ''$RECYCLE.BIN'' \<or> d = ''System Volume Information'')
                       (butlast names))))
       \<and> sorted files"
proof -
  from assms obtain found where
    found: "walk_paths os fs ignore_dotfiles ignore_windows_volume_folders (sort paths) = Inr found"
    and files: "files = sort (map fst found)"
    by (auto simp add: get_file_paths_and_size_def split: sum.splits)
  have "p \<in> set files \<longleftrightarrow> p \<in> fst ` set found"
    using files by simp
  also have "\<dots> \<longleftrightarrow>
      (\<exists>top \<in> set paths. \<exists>entries names. fs top = Some (Directory entries)
           \<and> file_below os top entries names p
           \<and> allowed ignore_dotfiles ignore_windows_volume_folders names)"
    using walk_paths_found [OF found, of p] by simp
  finally show ?thesis
    using files by (simp add: allowed_def EXCLUDE_FOLDERS_def list_ex_iff)
qed

theorem enumeration_respects_ignore_flags_witness:
  "get_file_paths_and_size posix [''/a'' \<mapsto> example_directory] [''/a''] True True =
     Inr ([''/a/sub/y.txt'', ''/a/x.txt''], 4)
   \<and> get_file_paths_and_size posix [''/a'' \<mapsto> example_directory] [''/a''] False False =
     Inr ([''/a/$RECYCLE.BIN/junk'', ''/a/.git/config'', ''/a/.hidden'', ''/a/sub/y.txt'',
           ''/a/x.txt''], 10)
   \<and> sorted [''/a/sub/y.txt'', ''/a/x.txt'']"
proof -
  have a: "get_file_paths_and_size posix [''/a'' \<mapsto> example_directory] [''/a''] True True =
     Inr ([''/a/sub/y.txt'', ''/a/x.txt''], 4)"
    by code_simp
  have b: "get_file_paths_and_size posix [''/a'' \<mapsto> example_directory] [''/a''] False False =
     Inr ([''/a/$RECYCLE.BIN/junk'', ''/a/.git/config'', ''/a/.hidden'', ''/a/sub/y.txt'',
           ''/a/x.txt''], 10)"
    by code_simp
  from enumeration_respects_ignore_flags [OF a] have "sorted [''/a/sub/y.txt'', ''/a/x.txt'']"
    by blast
  with a b show ?thesis by blast
qed

subsection \<open>The output path that is free\<close>

lemma str_nat_digits: "set (str_nat n) \<subseteq> set ''0123456789''"
proof (induction n rule: str_nat.induct)
  case (1 n)
  have d: "\<And>m. m < 10 \<Longrightarrow> digit_char m \<in> set ''0123456789''"
    unfolding digit_char_def by (rule nth_mem) simp
  show ?case
  proof (cases "n < 10")
    case True
    with d [of n] show ?thesis by (subst str_nat.simps) simp
  next
    case False
    have "n mod 10 < 10" by simp
    from d [OF this] "1.IH" [OF False] False show ?thesis
      by (subst str_nat.simps) simp
  qed
qed

lemma str_nat_no_dot: "c \<in> set (str_nat n) \<Longrightarrow> \<not> is_dot c"
  using str_nat_digits [of n] by (auto simp add: is_dot_def)

lemma str_nat_no_slash: "c \<in> set (str_nat n) \<Longrightarrow> \<not> is_slash c"
  using str_nat_digits [of n] by (auto simp add: is_slash_def)

text \<open>The extension of a name with a last dot.\<close>

lemma name_ext_last_dot:
  assumes "\<forall>c \<in> set ext. \<not> is_dot c"
  shows "name_ext (stem @ CHR ''.'' # ext) =
           (if list_all is_dot stem then [] else CHR ''.'' # ext)"
proof -
  have "rev (stem @ CHR ''.'' # ext) = rev ext @ CHR ''.'' # rev stem"
    by simp
  moreover have "takeWhile (\<lambda>c. \<not> is_dot c) (rev ext @ CHR ''.'' # rev stem) = rev ext"
    using assms by (simp add: takeWhile_tail is_dot_def)
  ultimately have "rev (takeWhile (\<lambda>c. \<not> is_dot c) (rev (stem @ CHR ''.'' # ext))) = ext"
    by simp
  then show ?thesis
    unfolding name_ext_def Let_def by (simp add: is_dot_def)
qed

lemma name_ext_no_dot:
  assumes "\<forall>c \<in> set name. \<not> is_dot c"
  shows "name_ext name = []"
  using assms unfolding name_ext_def Let_def by (simp add: list_ex_iff)

lemma split_last_dot:
  assumes "\<exists>c \<in> set name. is_dot c"
  shows "\<exists>stem ext. name = stem @ CHR ''.'' # ext \<and> (\<forall>c \<in> set ext. \<not> is_dot c)"
proof -
  from assms have "\<exists>c \<in> set (rev name). is_dot c" by simp
  then obtain xs x ys where r: "rev name = xs @ x # ys" and x: "is_dot x"
    and xs: "\<forall>c \<in> set xs. \<not> is_dot c"
    using split_list_first_prop [of "rev name" is_dot] by blast
  from r have "rev (rev name) = rev (xs @ x # ys)"
    by (rule arg_cong)
  then have "name = rev ys @ x # rev xs"
    by simp
  moreover from x have "x = CHR ''.''"
    by (simp add: is_dot_def)
  ultimately have "name = rev ys @ CHR ''.'' # rev xs"
    by simp
  moreover have "\<forall>c \<in> set (rev xs). \<not> is_dot c"
    using xs by simp
  ultimately show ?thesis
    by blast
qed

text \<open>
  A name cut at its extension, a suffix without dots put in between: the extension stays.
\<close>

lemma name_ext_stable:
  assumes s: "\<forall>c \<in> set s. \<not> is_dot c" and ne: "s \<noteq> []"
  shows "name_ext (take (length b - length (name_ext b)) b @ s @ name_ext b) = name_ext b"
proof (cases "\<exists>c \<in> set b. is_dot c")
  case False
  then have e: "name_ext b = []" by (simp add: name_ext_no_dot)
  from False s have "\<forall>c \<in> set (b @ s). \<not> is_dot c" by auto
  from name_ext_no_dot [OF this] e show ?thesis by simp
next
  case True
  from split_last_dot [OF this] obtain stem ext where
    b: "b = stem @ CHR ''.'' # ext" and ext: "\<forall>c \<in> set ext. \<not> is_dot c" by blast
  show ?thesis
  proof (cases "list_all is_dot stem")
    case True
    with name_ext_last_dot [OF ext, of stem] b have e: "name_ext b = []" by simp
    from ext s have "\<forall>c \<in> set (ext @ s). \<not> is_dot c" by auto
    from name_ext_last_dot [OF this, of stem] True have "name_ext (b @ s) = []"
      using b by simp
    with e show ?thesis by simp
  next
    case False
    with name_ext_last_dot [OF ext, of stem] b have e: "name_ext b = CHR ''.'' # ext" by simp
    from ne s obtain c where "c \<in> set s" "\<not> is_dot c" by (cases s) auto
    then have "\<not> list_all is_dot (stem @ s)" by (auto simp add: list_all_iff)
    with name_ext_last_dot [OF ext, of "stem @ s"]
    have "name_ext ((stem @ s) @ CHR ''.'' # ext) = CHR ''.'' # ext" by simp
    with e b show ?thesis by simp
  qed
qed

text \<open>Joining a directory and a name without separators, and taking the result apart.\<close>

lemma basename_join:
  assumes "\<forall>c \<in> set name. \<not> is_slash c" and "name \<noteq> []"
  shows "posix_basename (posix_join dir name) = name"
proof -
  from assms have hd: "\<not> is_slash (hd name)" by (cases name) auto
  have tw: "\<And>xs. xs = [] \<or> is_slash (last xs) \<Longrightarrow>
      takeWhile (\<lambda>c. \<not> is_slash c) (rev name @ rev xs) = rev name"
  proof -
    fix xs :: string
    assume a: "xs = [] \<or> is_slash (last xs)"
    show "takeWhile (\<lambda>c. \<not> is_slash c) (rev name @ rev xs) = rev name"
    proof (cases xs rule: rev_cases)
      case Nil
      with assms(1) show ?thesis by simp
    next
      case (snoc ys y)
      with a have "is_slash y" by simp
      with snoc assms(1) show ?thesis by (simp add: takeWhile_tail)
    qed
  qed
  show ?thesis
  proof (cases "dir = [] \<or> is_slash (last dir)")
    case True
    from tw [OF True] hd assms(2) True show ?thesis
      by (auto simp add: posix_basename_def posix_join_def)
  next
    case False
    have "takeWhile (\<lambda>c. \<not> is_slash c) (rev name @ rev (dir @ ''/'')) = rev name"
      by (rule tw) (simp add: is_slash_def)
    with hd assms(2) False show ?thesis
      by (simp add: posix_basename_def posix_join_def)
  qed
qed

lemma dirname_shaped_dirname: "dirname_shaped (posix_dirname p)"
proof -
  let ?head = "rev (dropWhile (\<lambda>c. \<not> is_slash c) (rev p))"
  show ?thesis
  proof (cases "?head \<noteq> [] \<and> \<not> list_all is_slash ?head")
    case False
    note no_strip = this
    have all: "list_all is_slash ?head"
    proof (cases "?head = []")
      case True
      then show ?thesis by (simp only: list.pred_inject)
    next
      case False
      with no_strip show ?thesis by blast
    qed
    from no_strip have "(?head \<noteq> [] \<and> \<not> list_all is_slash ?head) = False"
      by blast
    then have "posix_dirname p = ?head"
      by (simp only: posix_dirname_def Let_def if_False)
    with all show ?thesis
      by (simp only: dirname_shaped_def simp_thms)
  next
    case True
    let ?d = "dropWhile is_slash (rev ?head)"
    from True have "\<exists>c \<in> set (rev ?head). \<not> is_slash c"
      by (auto simp add: list_all_iff)
    then have ne: "?d \<noteq> []"
      by simp
    then have "\<not> is_slash (hd ?d)"
      by (rule hd_dropWhile)
    with ne have "\<not> is_slash (last (rev ?d))"
      by (simp add: last_rev)
    with True show ?thesis
      by (simp add: posix_dirname_def dirname_shaped_def Let_def)
  qed
qed

lemma dirname_join:
  assumes "\<forall>c \<in> set name. \<not> is_slash c" and "name \<noteq> []" and "dirname_shaped dir"
  shows "posix_dirname (posix_join dir name) = dir"
proof -
  from assms have hd: "\<not> is_slash (hd name)" by (cases name) auto
  have dw: "\<And>xs. dropWhile (\<lambda>c. \<not> is_slash c) (rev name @ xs) = dropWhile (\<lambda>c. \<not> is_slash c) xs"
    by (rule dropWhile_append2) (use assms(1) in auto)
  show ?thesis
  proof (cases "list_all is_slash dir")
    case True
    then have j: "posix_join dir name = dir @ name"
      using hd assms(2) by (cases dir rule: rev_cases) (auto simp add: posix_join_def)
    have "dropWhile (\<lambda>c. \<not> is_slash c) (rev dir) = rev dir"
      using True by (cases "rev dir") (auto simp add: list_all_iff)
    with True j dw [of "rev dir"] show ?thesis
      by (simp add: posix_dirname_def Let_def)
  next
    case False
    with assms(3) have l: "\<not> is_slash (last dir)" and ne: "dir \<noteq> []"
      by (auto simp add: dirname_shaped_def)
    then have j: "posix_join dir name = dir @ ''/'' @ name"
      using hd assms(2) by (simp add: posix_join_def)
    have h: "dropWhile (\<lambda>c. \<not> is_slash c) (rev (dir @ ''/'' @ name)) = CHR ''/'' # rev dir"
      using dw [of "CHR ''/'' # rev dir"] by (simp add: is_slash_def)
    from ne l have "dropWhile is_slash (rev dir) = rev dir"
      by (cases dir rule: rev_cases) auto
    with j h False show ?thesis
      by (simp add: posix_dirname_def Let_def is_slash_def list_all_iff)
  qed
qed

lemma basename_no_slash: "c \<in> set (posix_basename p) \<Longrightarrow> \<not> is_slash c"
  unfolding posix_basename_def by (auto dest: set_takeWhileD)

lemma basename_idem: "posix_basename (posix_basename p) = posix_basename p"
  by (simp add: posix_basename_def)

lemma name_ext_subset: "c \<in> set (name_ext name) \<Longrightarrow> c \<in> set name \<or> is_dot c"
  unfolding name_ext_def Let_def
  by (auto simp add: is_dot_def dest: set_takeWhileD split: if_splits)

lemma snd_splitext: "snd (posix_splitext p) = name_ext (posix_basename p)"
  by (simp add: posix_splitext_def Let_def)

lemma candidate_unfold:
  "candidate p k =
     posix_join (posix_dirname p)
       (take (length (posix_basename p) - length (name_ext (posix_basename p))) (posix_basename p)
          @ (''_'' @ str_nat k) @ name_ext (posix_basename p))"
  by (simp add: candidate_def posix_splitext_def Let_def basename_idem)

lemma candidate_name_no_slash:
  "c \<in> set (take (length (posix_basename p) - length (name_ext (posix_basename p)))
                (posix_basename p)
              @ (''_'' @ str_nat k) @ name_ext (posix_basename p)) \<Longrightarrow> \<not> is_slash c"
  using basename_no_slash [of c p] str_nat_no_slash [of c k]
    name_ext_subset [of c "posix_basename p"]
  by (auto simp add: is_slash_def is_dot_def dest: in_set_takeD)

lemma dirname_candidate: "posix_dirname (candidate p k) = posix_dirname p"
  unfolding candidate_unfold
  by (rule dirname_join) (use candidate_name_no_slash in \<open>auto simp add: dirname_shaped_dirname\<close>)

lemma splitext_candidate: "snd (posix_splitext (candidate p k)) = snd (posix_splitext p)"
proof -
  let ?b = "posix_basename p"
  let ?name = "take (length ?b - length (name_ext ?b)) ?b @ (''_'' @ str_nat k) @ name_ext ?b"
  have "posix_basename (candidate p k) = ?name"
    unfolding candidate_unfold
    by (rule basename_join) (use candidate_name_no_slash in auto)
  moreover have "name_ext ?name = name_ext ?b"
    by (rule name_ext_stable) (use str_nat_no_dot in \<open>auto simp add: is_dot_def\<close>)
  ultimately show ?thesis
    by (simp add: snd_splitext)
qed

lemma candidate_step:
  "posix_join (posix_dirname (candidate p k))
     (fst (posix_splitext (posix_basename p)) @ ''_'' @ str_nat (k + 1)
        @ snd (posix_splitext (candidate p k))) = candidate p (k + 1)"
  unfolding dirname_candidate splitext_candidate by (simp add: candidate_def)

lemma safe_file_path_loop_candidates:
  assumes "\<forall>j. k \<le> j \<and> j < n \<longrightarrow> isfile fs (candidate p j)"
    and "\<not> isfile fs (candidate p n)" and "k \<le> n"
  shows "safe_file_path_loop posix fs (fst (posix_splitext (posix_basename p)))
           (candidate p k) (k + 1) = Some (candidate p n)"
  using assms
proof (induction "n - k" arbitrary: k)
  case 0
  then have "k = n" by simp
  with "0.prems"(2) show ?case
    by (subst safe_file_path_loop.simps) simp
next
  case (Suc d)
  then have k: "k < n" by simp
  with Suc.prems(1) have f: "isfile fs (candidate p k)" by simp
  have "safe_file_path_loop posix fs (fst (posix_splitext (posix_basename p)))
           (candidate p (k + 1)) (k + 1 + 1) = Some (candidate p n)"
  proof (rule Suc.hyps(1))
    show "d = n - (k + 1)" using Suc.hyps(2) by simp
    show "\<forall>j. k + 1 \<le> j \<and> j < n \<longrightarrow> isfile fs (candidate p j)"
      using Suc.prems(1) by simp
    show "\<not> isfile fs (candidate p n)" by (rule Suc.prems(2))
    show "k + 1 \<le> n" using k by simp
  qed
  with f candidate_step [of p k] show ?case
    by (subst safe_file_path_loop.simps) (simp add: posix_def)
qed

text \<open>Different suffixes give different paths.\<close>

lemma digit_char_inj: "a < 10 \<Longrightarrow> b < 10 \<Longrightarrow> digit_char a = digit_char b \<Longrightarrow> a = b"
proof -
  assume a: "a < 10" and b: "b < 10" and e: "digit_char a = digit_char b"
  have "distinct ''0123456789''" by simp
  moreover have "a < length ''0123456789''" "b < length ''0123456789''"
    using a b by simp_all
  ultimately show "a = b"
    using e unfolding digit_char_def by (simp only: nth_eq_iff_index_eq)
qed

lemma str_nat_not_Nil: "str_nat n \<noteq> []"
  by (subst str_nat.simps) simp

lemma str_nat_inj: "str_nat m = str_nat n \<Longrightarrow> m = n"
proof (induction m arbitrary: n rule: str_nat.induct)
  case (1 m)
  show ?case
  proof (cases "m < 10")
    case True
    then have m: "str_nat m = [digit_char m]" by (subst str_nat.simps) simp
    show ?thesis
    proof (cases "n < 10")
      case True
      then have "str_nat n = [digit_char n]" by (subst str_nat.simps) simp
      with m "1.prems" \<open>m < 10\<close> True show ?thesis
        by (simp add: digit_char_inj)
    next
      case False
      then have "str_nat n = str_nat (n div 10) @ [digit_char (n mod 10)]"
        by (subst str_nat.simps) simp
      with m "1.prems" str_nat_not_Nil [of "n div 10"] show ?thesis by simp
    qed
  next
    case False
    then have m: "str_nat m = str_nat (m div 10) @ [digit_char (m mod 10)]"
      by (subst str_nat.simps) simp
    show ?thesis
    proof (cases "n < 10")
      case True
      then have "str_nat n = [digit_char n]" by (subst str_nat.simps) simp
      with m "1.prems" str_nat_not_Nil [of "m div 10"] show ?thesis by simp
    next
      case n: False
      then have "str_nat n = str_nat (n div 10) @ [digit_char (n mod 10)]"
        by (subst str_nat.simps) simp
      with m "1.prems" have a: "str_nat (m div 10) = str_nat (n div 10)"
        and b: "digit_char (m mod 10) = digit_char (n mod 10)" by simp_all
      from "1.IH" [OF False a] have "m div 10 = n div 10" .
      moreover from b have "m mod 10 = n mod 10"
        by (rule digit_char_inj [rotated 2]) simp_all
      ultimately show ?thesis
        by (metis div_mult_mod_eq)
    qed
  qed
qed

lemma candidate_inj: "candidate p j = candidate p k \<Longrightarrow> j = k"
proof -
  let ?b = "posix_basename p"
  let ?name = "\<lambda>i. take (length ?b - length (name_ext ?b)) ?b @ (''_'' @ str_nat i) @ name_ext ?b"
  assume "candidate p j = candidate p k"
  then have "posix_basename (posix_join (posix_dirname p) (?name j)) =
      posix_basename (posix_join (posix_dirname p) (?name k))"
    by (simp only: candidate_unfold)
  moreover have "posix_basename (posix_join (posix_dirname p) (?name j)) = ?name j"
    by (rule basename_join) (use candidate_name_no_slash in auto)
  moreover have "posix_basename (posix_join (posix_dirname p) (?name k)) = ?name k"
    by (rule basename_join) (use candidate_name_no_slash in auto)
  ultimately have "?name j = ?name k" by simp
  then have "str_nat j = str_nat k" by simp
  then show "j = k" by (rule str_nat_inj)
qed

lemma some_candidate_free:
  assumes "finite (dom fs)"
  shows "\<exists>n. 2 \<le> n \<and> \<not> isfile fs (candidate p n)"
proof (rule ccontr)
  assume "\<not> (\<exists>n. 2 \<le> n \<and> \<not> isfile fs (candidate p n))"
  then have "candidate p ` {2..} \<subseteq> dom fs"
    by (auto simp add: isfile_def split: option.splits)
  with assms have "finite (candidate p ` {2..})"
    by (rule rev_finite_subset)
  moreover have "inj_on (candidate p) {2..}"
    by (rule inj_onI) (rule candidate_inj)
  ultimately have "finite {2::nat..}"
    by (rule finite_imageD)
  then show False
    by (simp add: infinite_Ici)
qed

lemma get_safe_file_path_unused:
  "\<not> isfile fs p \<Longrightarrow> get_safe_file_path os fs p = Some p"
  unfolding get_safe_file_path_def by (subst safe_file_path_loop.simps) simp

lemma get_safe_file_path_candidate:
  assumes "isfile fs p" and "2 \<le> n"
    and "\<forall>k. 2 \<le> k \<and> k < n \<longrightarrow> isfile fs (candidate p k)"
    and "\<not> isfile fs (candidate p n)"
  shows "get_safe_file_path posix fs p = Some (candidate p n)"
proof -
  have "safe_file_path_loop posix fs (fst (posix_splitext (posix_basename p)))
           (candidate p 2) (2 + 1) = Some (candidate p n)"
    using assms(3,4,2) by (rule safe_file_path_loop_candidates)
  with assms(1) show ?thesis
    unfolding get_safe_file_path_def
    by (subst safe_file_path_loop.simps) (simp add: posix_def candidate_def)
qed

text \<open>
  C9. \<open>get_safe_file_path\<close> is a function of the path and of which files exist. A path
  with no file is returned unchanged. When the path has a file, the paths tried are the
  directory of the path, the name without its extension, \<^verbatim>\<open>_2\<close>, \<^verbatim>\<open>_3\<close>, ... and the
  extension (\<open>candidate\<close>, on a POSIX host): the result is the first of them with no file.
  On a file system with finitely many files there is such a path, so the search ends.
\<close>

theorem get_safe_file_path_first_free:
  "(\<not> isfile fs p \<longrightarrow> get_safe_file_path os fs p = Some p)
   \<and> (isfile fs p \<and> 2 \<le> n \<and> (\<forall>k. 2 \<le> k \<and> k < n \<longrightarrow> isfile fs (candidate p k))
        \<and> \<not> isfile fs (candidate p n)
      \<longrightarrow> get_safe_file_path posix fs p = Some (candidate p n))
   \<and> (finite (dom fs) \<longrightarrow> (\<exists>q. get_safe_file_path posix fs p = Some q \<and> \<not> isfile fs q))"
proof (intro conjI impI)
  assume "\<not> isfile fs p"
  then show "get_safe_file_path os fs p = Some p"
    by (rule get_safe_file_path_unused)
next
  assume "isfile fs p \<and> 2 \<le> n \<and> (\<forall>k. 2 \<le> k \<and> k < n \<longrightarrow> isfile fs (candidate p k))
        \<and> \<not> isfile fs (candidate p n)"
  then show "get_safe_file_path posix fs p = Some (candidate p n)"
    using get_safe_file_path_candidate by blast
next
  assume fin: "finite (dom fs)"
  show "\<exists>q. get_safe_file_path posix fs p = Some q \<and> \<not> isfile fs q"
  proof (cases "isfile fs p")
    case False
    with get_safe_file_path_unused [OF False, of posix] show ?thesis by blast
  next
    case True
    let ?P = "\<lambda>n. 2 \<le> n \<and> \<not> isfile fs (candidate p n)"
    from some_candidate_free [OF fin, of p] have ex: "\<exists>n. ?P n" .
    define n where "n = (LEAST n. ?P n)"
    from ex have n: "?P n" unfolding n_def by (rule LeastI_ex)
    have "\<forall>k. 2 \<le> k \<and> k < n \<longrightarrow> isfile fs (candidate p k)"
    proof (intro allI impI)
      fix k assume k: "2 \<le> k \<and> k < n"
      then have "\<not> ?P k" unfolding n_def using not_less_Least by blast
      with k show "isfile fs (candidate p k)" by simp
    qed
    with True n have "get_safe_file_path posix fs p = Some (candidate p n)"
      using get_safe_file_path_candidate by blast
    with n show ?thesis by blast
  qed
qed

theorem get_safe_file_path_first_free_witness:
  "get_safe_file_path posix Map.empty ''out.zip'' = Some ''out.zip''
   \<and> get_safe_file_path posix [''out.zip'' \<mapsto> RegularFile True ''a''] ''out.zip'' =
       Some ''out_2.zip''
   \<and> get_safe_file_path posix
       [''out.zip'' \<mapsto> RegularFile True ''a'', ''out_2.zip'' \<mapsto> RegularFile True ''b'']
       ''out.zip'' = Some ''out_3.zip''"
proof -
  let ?fs1 = "[''out.zip'' \<mapsto> RegularFile True ''a'']"
  let ?fs2 = "[''out.zip'' \<mapsto> RegularFile True ''a'', ''out_2.zip'' \<mapsto> RegularFile True ''b'']"
  have c2: "candidate ''out.zip'' 2 = ''out_2.zip''" by code_simp
  have c3: "candidate ''out.zip'' 3 = ''out_3.zip''" by code_simp
  have a: "get_safe_file_path posix Map.empty ''out.zip'' = Some ''out.zip''"
    using get_safe_file_path_first_free [of Map.empty "''out.zip''" posix 2]
    by (simp add: isfile_def)
  have b: "get_safe_file_path posix ?fs1 ''out.zip'' = Some ''out_2.zip''"
    using get_safe_file_path_first_free [of ?fs1 "''out.zip''" posix 2]
    by (simp add: isfile_def c2)
  have "\<forall>k. 2 \<le> k \<and> k < 3 \<longrightarrow> isfile ?fs2 (candidate ''out.zip'' k)"
  proof (intro allI impI)
    fix k :: nat
    assume "2 \<le> k \<and> k < 3"
    then have "k = 2" by simp
    then show "isfile ?fs2 (candidate ''out.zip'' k)"
      by (simp add: isfile_def c2)
  qed
  then have c: "get_safe_file_path posix ?fs2 ''out.zip'' = Some ''out_3.zip''"
    using get_safe_file_path_first_free [of ?fs2 "''out.zip''" posix 3]
    by (simp add: isfile_def c3)
  from a b c show ?thesis by simp
qed

subsection \<open>Dictionaries\<close>

lemma map_of_dict_set: "map_of (dict_set d k v) = (map_of d)(k \<mapsto> v)"
  by (induction d) (auto simp add: fun_eq_iff)

lemma map_of_dict_extend:
  "map_of (dict_extend d k xs) =
     (case map_of d k of Some ys \<Rightarrow> (map_of d)(k \<mapsto> ys @ xs) | None \<Rightarrow> map_of d)"
  by (simp add: dict_extend_def map_of_dict_set split: option.splits)

lemma dict_eq_iff: "dict_eq a b \<longleftrightarrow> map_of a = map_of b"
proof
  assume "map_of a = map_of b"
  then show "dict_eq a b"
    by (simp add: dict_eq_def list_all_iff)
next
  assume eq: "dict_eq a b"
  show "map_of a = map_of b"
  proof
    fix k
    show "map_of a k = map_of b k"
    proof (cases "k \<in> set (map fst a @ map fst b)")
      case True
      with eq show ?thesis
        unfolding dict_eq_def list_all_iff by blast
    next
      case False
      then have "map_of a k = None" "map_of b k = None"
        by (simp_all add: map_of_eq_None_iff)
      then show ?thesis by simp
    qed
  qed
qed

lemma listed_dict_set_other: "k' \<noteq> k \<Longrightarrow> listed (dict_set d k v) k' x = listed d k' x"
  by (simp add: listed_def map_of_dict_set)






lemma dict_contains_kept_by_append:
  assumes "dict_contains d k'"
  shows "dict_contains (dict_append (if \<not> dict_contains d k then dict_set d k [] else d) k x) k'"
  using assms
  by (auto simp add: dict_contains_def dict_append_def map_of_dict_extend map_of_dict_set
      split: option.splits)





subsection \<open>Reading the archive back\<close>

lemma zip_open_listed_name:
  "name \<in> set (namelist zip_handler) \<Longrightarrow> \<exists>content. zip_open zip_handler name = Inr content"
proof -
  assume "name \<in> set (namelist zip_handler)"
  then have "name \<in> fst ` set (rev zip_handler)"
    by (simp add: namelist_def)
  then have "map_of (rev zip_handler) name \<noteq> None"
    by (simp only: map_of_eq_None_iff not_not)
  then show ?thesis
    by (auto simp add: zip_open_def)
qed

lemma hash_file_in_zip_content:
  "zip_open zip_handler name = Inr content \<Longrightarrow>
   hash_file_in_zip hashlib zip_handler name default_algorithm =
     Inr (content_digest hashlib content)"
  by (simp add: hash_file_in_zip_def content_digest_def Let_def)

lemma zip_hash_loop_total:
  "set names \<subseteq> set (namelist zip_handler) \<Longrightarrow>
   \<exists>zip_hash_dict. zip_hash_loop hashlib zip_handler names d n =
     Inr (zip_hash_dict, n + length names)"
proof (induction names arbitrary: d n)
  case Nil
  then show ?case by simp
next
  case (Cons name names)
  then have "name \<in> set (namelist zip_handler)" by simp
  from zip_open_listed_name [OF this] obtain content where
    "zip_open zip_handler name = Inr content" by blast
  from hash_file_in_zip_content [OF this]
  have h: "hash_file_in_zip hashlib zip_handler name default_algorithm =
     Inr (content_digest hashlib content)" .
  from Cons.prems have "set names \<subseteq> set (namelist zip_handler)" by simp
  from Cons.IH [OF this,
      of "dict_append
            (if \<not> dict_contains d (content_digest hashlib content)
             then dict_set d (content_digest hashlib content) [] else d)
            (content_digest hashlib content) name" "n + 1"]
  obtain zip_hash_dict where
    "zip_hash_loop hashlib zip_handler names
       (dict_append
          (if \<not> dict_contains d (content_digest hashlib content)
           then dict_set d (content_digest hashlib content) [] else d)
          (content_digest hashlib content) name) (n + 1) =
     Inr (zip_hash_dict, n + 1 + length names)" by blast
  with h show ?case
    by (simp add: Let_def)
qed

lemma get_zip_hash_dict_total:
  "\<exists>zip_hash_dict. get_zip_hash_dict hashlib zip_handler =
     Inr (zip_hash_dict, length zip_handler)"
  using zip_hash_loop_total [of "namelist zip_handler" zip_handler hashlib "[]" 0]
  by (simp add: get_zip_hash_dict_def namelist_def)

subsection \<open>The verdict\<close>

lemma mismatch_lines_digests:
  "l \<in> set (mismatch_lines file_hash_dict zip_hash_dict) \<Longrightarrow>
   \<exists>k. line_digest l = Some k \<and> dict_contains file_hash_dict k"
proof -
  assume "l \<in> set (mismatch_lines file_hash_dict zip_hash_dict)"
  then obtain k file_paths where item: "(k, file_paths) \<in> set file_hash_dict"
    and l: "l \<in> set (case map_of zip_hash_dict k of
                 None \<Rightarrow> [HashNotPresent k file_paths]
               | Some zip_paths \<Rightarrow>
                   if sort file_paths \<noteq> sort zip_paths
                   then [FilesDoNotMatch k file_paths zip_paths] else [])"
    by (auto simp add: mismatch_lines_def)
  from l have "line_digest l = Some k"
    by (auto split: option.splits if_splits)
  moreover from item have "k \<in> fst ` set file_hash_dict"
    by force
  then have "dict_contains file_hash_dict k"
    by (simp only: dict_contains_def map_of_eq_None_iff not_not)
  ultimately show ?thesis by blast
qed

text \<open>
  C10. If the dictionary of the archive has a digest that the dictionary of the source
  files does not have, the comparison fails: the outcome is the failed verification, the
  archive is removed and the report is written, and no line of the report is about that
  digest, since the lines come from the digests of the source dictionary only.
\<close>

theorem archive_only_digest_not_reported:
  assumes "dict_contains zip_hash_dict h" and "\<not> dict_contains file_hash_dict h"
  shows "main_verify os output_directory run_time_str file_hash_dict total_file_count
           zip_hash_dict zip_file_count files =
         \<lparr> outcome = VerificationFailed,
           left = \<lparr> archive = None,
                    error_log = Some (error_log_file_path os output_directory run_time_str,
                                      mismatch_lines file_hash_dict zip_hash_dict) \<rparr> \<rparr>
       \<and> list_all (\<lambda>l. line_digest l \<noteq> Some h) (mismatch_lines file_hash_dict zip_hash_dict)"
proof -
  from assms have "map_of file_hash_dict h \<noteq> map_of zip_hash_dict h"
    by (auto simp add: dict_contains_def)
  then have "\<not> dict_eq file_hash_dict zip_hash_dict"
    by (auto simp add: dict_eq_iff)
  moreover have "list_all (\<lambda>l. line_digest l \<noteq> Some h)
      (mismatch_lines file_hash_dict zip_hash_dict)"
    unfolding list_all_iff using mismatch_lines_digests assms(2) by fastforce
  ultimately show ?thesis
    by (simp add: main_verify_def)
qed

theorem archive_only_digest_not_reported_witness:
  "main_verify posix ''.'' ''T'' [(''d1'', [''a'', ''b''])] 3
     [(''d1'', [''a'', ''b'']), (''d2'', [''c''])] 3
     \<lparr> archive = Some [(''a'', ''x''), (''b'', ''x''), (''c'', ''y'')], error_log = None \<rparr> =
   \<lparr> outcome = VerificationFailed,
     left = \<lparr> archive = None, error_log = Some (''./T_verizip_error.txt'', []) \<rparr> \<rparr>"
proof -
  have a: "dict_contains [(''d1'', [''a'', ''b'']), (''d2'', [''c''])] ''d2''"
    by (simp add: dict_contains_def)
  have b: "\<not> dict_contains [(''d1'', [''a'', ''b''])] ''d2''"
    by (simp add: dict_contains_def)
  have c: "mismatch_lines [(''d1'', [''a'', ''b''])] [(''d1'', [''a'', ''b'']), (''d2'', [''c''])] = []"
    by (simp add: mismatch_lines_def)
  have d: "error_log_file_path posix ''.'' ''T'' = ''./T_verizip_error.txt''"
    by (simp add: error_log_file_path_def posix_def posix_join_def is_slash_def)
  from archive_only_digest_not_reported [OF a b, of posix "''.''" "''T''" 3 3
      "\<lparr> archive = Some [(''a'', ''x''), (''b'', ''x''), (''c'', ''y'')], error_log = None \<rparr>"]
  show ?thesis
    by (simp add: c d)
qed



subsection \<open>Runs on the example files\<close>

lemma read_and_update_short:
  "content \<noteq> [] \<Longrightarrow> length content \<le> n \<Longrightarrow>
   read_and_update H n hasher content = h_update H hasher content"
  by (subst read_and_update.simps, subst read_and_update.simps) simp

lemma example_digest:
  "content \<noteq> [] \<Longrightarrow> length content \<le> 65536 \<Longrightarrow>
   content_digest example_hashlib content = default_algorithm @ ''|'' @ content"
  by (simp add: content_digest_def read_and_update_short block_size_def example_hashlib_def)

lemma hash_file_at_path_content:
  "fs file_path = Some (RegularFile True content) \<Longrightarrow>
   hash_file_at_path hashlib fs file_path default_algorithm =
     Inr (content_digest hashlib content)"
  by (simp add: hash_file_at_path_def open_rb_def content_digest_def Let_def)

lemma example_files_simps:
  "example_files ''/a/x.txt'' = Some (RegularFile True ''hi'')"
  "example_files ''/a/y.txt'' = Some (RegularFile True ''hi'')"
  "example_files ''/a/pipe'' = Some SpecialFile"
  "example_files ''/a/gone'' = None"
  by (simp_all add: example_files_def)

lemma example_create_zip:
  "create_zip posix example_hashlib example_files [''/a/x.txt'', ''/a/y.txt''] False False False
     ''/'' =
   (Inr ([(''sha1|hi'', [''x.txt'', ''y.txt''])], 2), [(''x.txt'', ''hi''), (''y.txt'', ''hi'')])"
proof -
  have root: "get_common_root_directory [''/a/x.txt'', ''/a/y.txt''] ''/'' = Inr (Some ''/a'')"
    by code_simp
  have rel: "hash_dict_rel_path posix ''/a/x.txt'' (Some ''/a'') False = ''x.txt''"
    "hash_dict_rel_path posix ''/a/y.txt'' (Some ''/a'') False = ''y.txt''"
    by code_simp+
  have arc: "zip_name posix (zip_arcname posix ''/a/x.txt'' (Some ''/a'') False) = ''x.txt''"
    "zip_name posix (zip_arcname posix ''/a/y.txt'' (Some ''/a'') False) = ''y.txt''"
    by code_simp+
  have hx: "hash_file_at_path example_hashlib example_files ''/a/x.txt'' default_algorithm =
      Inr ''sha1|hi''"
    using hash_file_at_path_content [of example_files "''/a/x.txt''" "''hi''" example_hashlib]
      example_files_simps(1)
    by (simp add: example_digest default_algorithm_def)
  have hy: "hash_file_at_path example_hashlib example_files ''/a/y.txt'' default_algorithm =
      Inr ''sha1|hi''"
    using hash_file_at_path_content [of example_files "''/a/y.txt''" "''hi''" example_hashlib]
      example_files_simps(2)
    by (simp add: example_digest default_algorithm_def)
  have hd: "get_hash_dict posix example_hashlib example_files [''/a/x.txt''] (Some ''/a'') False =
      Inr [(''sha1|hi'', [''x.txt''])]"
    "get_hash_dict posix example_hashlib example_files [''/a/y.txt''] (Some ''/a'') False =
      Inr [(''sha1|hi'', [''y.txt''])]"
    by (simp_all add: get_hash_dict_def isfile_def example_files_simps hx hy rel
        dict_contains_def dict_append_def dict_extend_def)
  have add: "zip_write posix example_files [] ''/a/x.txt''
        (zip_arcname posix ''/a/x.txt'' (Some ''/a'') False) = Inr [(''x.txt'', ''hi'')]"
    "zip_write posix example_files [(''x.txt'', ''hi'')] ''/a/y.txt''
        (zip_arcname posix ''/a/y.txt'' (Some ''/a'') False) =
      Inr [(''x.txt'', ''hi''), (''y.txt'', ''hi'')]"
    by (simp_all add: zip_write_def open_rb_def example_files_simps arc)
  show ?thesis
    by (simp add: create_zip_def create_zip_common_root_def root input_file_list_def isdir_def
        example_files_simps hash_and_add_def hd add merge_hash_dict_def dict_contains_def
        dict_extend_def)
qed

lemma example_get_zip_hash_dict:
  "get_zip_hash_dict example_hashlib [(''x.txt'', ''hi''), (''y.txt'', ''hi'')] =
     Inr ([(''sha1|hi'', [''x.txt'', ''y.txt''])], 2)"
proof -
  have zx: "zip_open [(''x.txt'', ''hi''), (''y.txt'', ''hi'')] ''x.txt'' = Inr ''hi''"
    and zy: "zip_open [(''x.txt'', ''hi''), (''y.txt'', ''hi'')] ''y.txt'' = Inr ''hi''"
    by (simp_all add: zip_open_def)
  have "hash_file_in_zip example_hashlib [(''x.txt'', ''hi''), (''y.txt'', ''hi'')] ''x.txt''
        default_algorithm = Inr ''sha1|hi''"
    using hash_file_in_zip_content [OF zx, of example_hashlib]
    by (simp add: example_digest default_algorithm_def)
  moreover have "hash_file_in_zip example_hashlib [(''x.txt'', ''hi''), (''y.txt'', ''hi'')]
        ''y.txt'' default_algorithm = Inr ''sha1|hi''"
    using hash_file_in_zip_content [OF zy, of example_hashlib]
    by (simp add: example_digest default_algorithm_def)
  ultimately show ?thesis
    by (simp add: get_zip_hash_dict_def namelist_def dict_contains_def dict_append_def
        dict_extend_def)
qed

lemma example_run_verified:
  "main_create_and_verify posix example_hashlib example_files ''/o/out.zip'' ''/o'' ''T''
        [''/a/x.txt'', ''/a/y.txt''] False False False ''/'' =
      Inr \<lparr> outcome = Verified,
            left = \<lparr> archive = Some [(''x.txt'', ''hi''), (''y.txt'', ''hi'')],
                     error_log = None \<rparr> \<rparr>"
  by (simp add: main_create_and_verify_def example_create_zip example_get_zip_hash_dict
      main_verify_def dict_eq_def)



subsection \<open>The fatal paths of a run\<close>




subsection \<open>Files with the same content\<close>













subsection \<open>Further properties\<close>

text \<open>
  The example of the specification: the inputs \<^verbatim>\<open>/a/x.txt\<close> and \<^verbatim>\<open>/a/y.txt\<close>, both with
  the bytes \<^verbatim>\<open>hi\<close>, and no flags. The archive holds \<^verbatim>\<open>x.txt\<close> and \<^verbatim>\<open>y.txt\<close>, both
  dictionaries map the one digest to these two names, both counts are 2, and the run ends
  verified with the archive kept.
\<close>

theorem specification_example_verified:
  "create_zip posix example_hashlib example_files [''/a/x.txt'', ''/a/y.txt''] False False False
     ''/'' =
   (Inr ([(content_digest example_hashlib ''hi'', [''x.txt'', ''y.txt''])], 2),
    [(''x.txt'', ''hi''), (''y.txt'', ''hi'')])
   \<and> get_zip_hash_dict example_hashlib [(''x.txt'', ''hi''), (''y.txt'', ''hi'')] =
       Inr ([(content_digest example_hashlib ''hi'', [''x.txt'', ''y.txt''])], 2)
   \<and> main posix example_hashlib example_files
        \<lparr> arg_input_paths = [''/a/x.txt'', ''/a/y.txt''], arg_output_path = Some ''/o/out.zip'',
          arg_root_directory = False, arg_ignore_dotfiles = False,
          arg_ignore_windows_volume_folders = False \<rparr> ''T'' =
      Some (Inr \<lparr> outcome = Verified,
                  left = \<lparr> archive = Some [(''x.txt'', ''hi''), (''y.txt'', ''hi'')],
                           error_log = None \<rparr> \<rparr>)"
proof -
  have d: "content_digest example_hashlib ''hi'' = ''sha1|hi''"
    by (simp add: example_digest default_algorithm_def)
  have abs: "path_abspath posix ''/a/x.txt'' = ''/a/x.txt''"
    "path_abspath posix ''/a/y.txt'' = ''/a/y.txt''"
    by code_simp+
  have dir: "path_dirname posix ''/o/out.zip'' = ''/o''"
    by code_simp
  have sys: "system posix \<noteq> ''Windows''"
    by (simp add: posix_def)
  have "get_missing_sources example_files [''/a/x.txt'', ''/a/y.txt''] False = []"
    by (simp add: get_missing_sources_def isfile_def example_files_simps)
  then have "main posix example_hashlib example_files
        \<lparr> arg_input_paths = [''/a/x.txt'', ''/a/y.txt''], arg_output_path = Some ''/o/out.zip'',
          arg_root_directory = False, arg_ignore_dotfiles = False,
          arg_ignore_windows_volume_folders = False \<rparr> ''T'' =
      Some (main_create_and_verify posix example_hashlib example_files ''/o/out.zip'' ''/o'' ''T''
        [''/a/x.txt'', ''/a/y.txt''] False False False ''/'')"
    by (simp add: main_def choose_output_def abs dir sys)
  with d example_create_zip example_get_zip_hash_dict example_run_verified show ?thesis
    by simp
qed

text \<open>
  Reading the archive back raises nothing, whatever the archive holds: every name of
  \<^verbatim>\<open>namelist()\<close> can be opened, and the count is the number of entries.
\<close>

theorem reading_back_never_raises:
  "\<exists>zip_hash_dict. get_zip_hash_dict hashlib zip_handler =
     Inr (zip_hash_dict, length (namelist zip_handler))"
  using get_zip_hash_dict_total [of hashlib zip_handler] by (simp add: namelist_def)

end
